theory Spec2Isabelle
  imports Main "HOL-Library.Word"
begin

section \<open>Go values used by the topology package\<close>

text \<open>A Go \<open>error\<close> value; \<open>fmt.Errorf\<close> builds one from its message.\<close>

datatype error = Errorf string

text \<open>
  A Go slice is either \<open>nil\<close> or a (possibly empty) sequence. \<open>append\<close> on a non-nil
  slice never yields \<open>nil\<close>; \<open>append\<close> of no elements to \<open>nil\<close> stays \<open>nil\<close>.
  \<open>make([]T, 0, n)\<close> is the non-nil empty slice, whatever the capacity \<open>n\<close>.
\<close>

datatype 'a slice = NilSlice | Slice "'a list"

fun elems :: "'a slice \<Rightarrow> 'a list" where
  "elems NilSlice = []"
| "elems (Slice xs) = xs"

definition len :: "'a slice \<Rightarrow> nat" where
  "len s = length (elems s)"

fun append_slice :: "'a slice \<Rightarrow> 'a list \<Rightarrow> 'a slice" where
  "append_slice NilSlice xs = (if xs = [] then NilSlice else Slice xs)"
| "append_slice (Slice ys) xs = Slice (ys @ xs)"

definition make_slice :: "nat \<Rightarrow> 'a slice" where
  "make_slice capacity = Slice []"

text \<open>
  A buffered Go channel: its capacity, the values waiting in it, and whether it was closed.
  \<open>select { case ch <- v: default: }\<close> is the non-blocking send \<open>try_send\<close>: the value
  is queued when there is room and dropped otherwise. (The channels sent to in this package
  all have capacity one and are never closed by it.)
\<close>

record 'a chan =
  chan_cap :: nat
  chan_buf :: "'a list"
  chan_closed :: bool

definition make_chan :: "nat \<Rightarrow> 'a chan" where
  "make_chan n = \<lparr>chan_cap = n, chan_buf = [], chan_closed = False\<rparr>"

definition try_send :: "'a chan \<Rightarrow> 'a \<Rightarrow> 'a chan" where
  "try_send ch v =
     (if length (chan_buf ch) < chan_cap ch then ch\<lparr>chan_buf := chan_buf ch @ [v]\<rparr> else ch)"

section \<open>Component records and the upstream registries\<close>

definition ComponentTiDB :: string where "ComponentTiDB = ''tidb''"
definition ComponentTiKV :: string where "ComponentTiKV = ''tikv''"
definition ComponentTiFlash :: string where "ComponentTiFlash = ''tiflash''"
definition ComponentPD :: string where "ComponentPD = ''pd''"

record Component =
  Name :: string
  IP :: string
  Port :: "64 word"
  StatusPort :: "64 word"

text \<open>
  Modelled from the spec: the instance types \<open>topo.TiDBInfo\<close>, \<open>topo.PDInfo\<close>,
  \<open>topo.StoreInfo\<close> and the status type \<open>topo.ComponentStatus\<close> belong to the
  tidb-dashboard library. Only the fields the adapters read are kept, and a status is either
  \<open>ComponentStatusUp\<close> or one of the other states (unreachable, tombstone, offline, down),
  which the adapters do not tell apart.
\<close>

datatype ComponentStatus =
  ComponentStatusUnreachable
| ComponentStatusUp
| ComponentStatusTombstone
| ComponentStatusOffline
| ComponentStatusDown

record TiDBInfo =
  tidb_IP :: string
  tidb_Port :: "64 word"
  tidb_StatusPort :: "64 word"
  tidb_Status :: ComponentStatus

record PDInfo =
  pd_IP :: string
  pd_Port :: "64 word"
  pd_Status :: ComponentStatus

record StoreInfo =
  store_IP :: string
  store_Port :: "64 word"
  store_StatusPort :: "64 word"
  store_Status :: ComponentStatus

text \<open>
  What the three registry calls of one aggregation cycle return: \<open>topo.GetTiDBInstances\<close>
  (etcd), \<open>topo.GetPDInstances\<close> and \<open>topo.GetStoreInstances\<close> (PD HTTP API; the TiKV
  stores first, the TiFlash stores second). Each call yields an error or its instances.
\<close>

record upstream =
  GetTiDBInstances :: "error + TiDBInfo list"
  GetPDInstances :: "error + PDInfo list"
  GetStoreInstances :: "error + (StoreInfo list \<times> StoreInfo list)"

section \<open>Source adapters\<close>

text \<open>The \<open>for _, instance := range instances\<close> loop of \<open>getTiDBComponents\<close>.\<close>

fun tidb_range :: "TiDBInfo list \<Rightarrow> Component slice \<Rightarrow> Component slice" where
  "tidb_range [] components = components"
| "tidb_range (instance # instances) components =
     (if tidb_Status instance \<noteq> ComponentStatusUp then tidb_range instances components
      else tidb_range instances
             (append_slice components
                [\<lparr>Name = ComponentTiDB, IP = tidb_IP instance, Port = tidb_Port instance,
                  StatusPort = tidb_StatusPort instance\<rparr>]))"

definition getTiDBComponents :: "upstream \<Rightarrow> error + Component slice" where
  "getTiDBComponents up =
     (case GetTiDBInstances up of
        Inl err \<Rightarrow> Inl err
      | Inr instances \<Rightarrow> Inr (tidb_range instances (make_slice (length instances))))"

text \<open>The loop of \<open>getPDComponents\<close>: the status port is the instance's port.\<close>

fun pd_range :: "PDInfo list \<Rightarrow> Component slice \<Rightarrow> Component slice" where
  "pd_range [] components = components"
| "pd_range (instance # instances) components =
     (if pd_Status instance \<noteq> ComponentStatusUp then pd_range instances components
      else pd_range instances
             (append_slice components
                [\<lparr>Name = ComponentPD, IP = pd_IP instance, Port = pd_Port instance,
                  StatusPort = pd_Port instance\<rparr>]))"

definition getPDComponents :: "upstream \<Rightarrow> error + Component slice" where
  "getPDComponents up =
     (case GetPDInstances up of
        Inl err \<Rightarrow> Inl err
      | Inr instances \<Rightarrow> Inr (pd_range instances (make_slice (length instances))))"

text \<open>
  The closure \<open>getComponents\<close> of \<open>getStoreComponents\<close>; it appends to the variable
  \<open>components\<close> of the enclosing function, here passed in and returned.
\<close>

fun getComponents :: "StoreInfo list \<Rightarrow> string \<Rightarrow> Component slice \<Rightarrow> Component slice" where
  "getComponents [] name components = components"
| "getComponents (instance # instances) name components =
     (if store_Status instance \<noteq> ComponentStatusUp then getComponents instances name components
      else getComponents instances name
             (append_slice components
                [\<lparr>Name = name, IP = store_IP instance, Port = store_Port instance,
                  StatusPort = store_StatusPort instance\<rparr>]))"

definition getStoreComponents :: "upstream \<Rightarrow> error + Component slice" where
  "getStoreComponents up =
     (case GetStoreInstances up of
        Inl err \<Rightarrow> Inl err
      | Inr (tikvInstances, tiflashInstances) \<Rightarrow>
          Inr (getComponents tiflashInstances ComponentTiFlash
                 (getComponents tikvInstances ComponentTiKV
                    (make_slice (length tikvInstances + length tiflashInstances)))))"

section \<open>Snapshot aggregation\<close>

text \<open>
  The loop of \<open>getAllScrapeTargets\<close> over the adapters \<open>fns\<close>: the first error ends the
  cycle with \<open>nil, err\<close>; otherwise the nodes are appended to \<open>components\<close>.
\<close>

fun scrape_range ::
  "(upstream \<Rightarrow> error + Component slice) list \<Rightarrow> upstream \<Rightarrow> Component slice
     \<Rightarrow> error + Component slice" where
  "scrape_range [] up components = Inr components"
| "scrape_range (fn # fns) up components =
     (case fn up of
        Inl err \<Rightarrow> Inl err
      | Inr nodes \<Rightarrow> scrape_range fns up (append_slice components (elems nodes)))"

definition getAllScrapeTargets :: "upstream \<Rightarrow> error + Component slice" where
  "getAllScrapeTargets up =
     scrape_range [getTiDBComponents, getPDComponents, getStoreComponents] up (make_slice 8)"

section \<open>The topology discoverer\<close>

text \<open>
  The struct \<open>TopologyDiscoverer\<close>. The two registry clients are opaque values. A channel
  is a reference in Go; here the slice \<open>subscriber\<close> holds the state of each mailbox, and
  the handle a subscriber keeps is the position of its mailbox in that slice (the slice only
  grows, so positions are stable).
\<close>

record ('p, 'e) TopologyDiscoverer =
  pdCli :: 'p
  etcdCli :: 'e
  subscriber :: "Component slice chan slice"
  components :: "Component slice"
  notifyCh :: "unit chan"
  closed :: "unit chan"

text \<open>
  Modelled from the spec: the config package is not among the sources. The record holds what
  \<open>NewTopologyDiscoverer\<close> reads of the configuration: \<open>cfg.PD.Endpoints\<close>, and the
  values that the getters \<open>cfg.GetHTTPScheme()\<close> and \<open>cfg.Security.GetTLSConfig()\<close>
  return (the scheme selector and the optional TLS client configuration).
\<close>

record 'tls Config =
  PD_Endpoints :: "string list"
  GetHTTPScheme :: string
  GetTLSConfig :: 'tls

record 'tls APIClientConfig =
  api_Endpoint :: string
  api_TLS :: 'tls

record 'tls EtcdClientConfig =
  etcd_Endpoints :: "string list"
  etcd_TLS :: 'tls

text \<open>The client constructors that were called, in order.\<close>

datatype 'tls call =
  CallNewAPIClient "'tls APIClientConfig"
| CallNewEtcdClient "'tls EtcdClientConfig"

text \<open>
  \<open>NewTopologyDiscoverer\<close>. The library constructors \<open>pdclient.NewAPIClient\<close> and
  \<open>pdclient.NewEtcdClient\<close> are parameters; the result is paired with the constructor
  calls made on the way.
\<close>

definition NewTopologyDiscoverer ::
  "('tls APIClientConfig \<Rightarrow> error + 'p) \<Rightarrow> ('tls EtcdClientConfig \<Rightarrow> error + 'e)
     \<Rightarrow> 'tls Config \<Rightarrow> 'tls call list \<times> (error + ('p, 'e) TopologyDiscoverer)" where
  "NewTopologyDiscoverer NewAPIClient NewEtcdClient cfg =
     (case PD_Endpoints cfg of
        [] \<Rightarrow>
          ([], Inl (Errorf
             ''unexpected empty pd endpoints, please specify at least one pd endpoint''))
      | endpoint0 # _ \<Rightarrow>
          (let apiCfg = \<lparr>api_Endpoint = GetHTTPScheme cfg @ ''://'' @ endpoint0,
                          api_TLS = GetTLSConfig cfg\<rparr>
           in case NewAPIClient apiCfg of
                Inl err \<Rightarrow> ([CallNewAPIClient apiCfg], Inl err)
              | Inr pdCli' \<Rightarrow>
                  (let etcdCfg = \<lparr>etcd_Endpoints = PD_Endpoints cfg,
                                   etcd_TLS = GetTLSConfig cfg\<rparr>
                   in case NewEtcdClient etcdCfg of
                        Inl err \<Rightarrow> ([CallNewAPIClient apiCfg, CallNewEtcdClient etcdCfg], Inl err)
                      | Inr etcdCli' \<Rightarrow>
                          ([CallNewAPIClient apiCfg, CallNewEtcdClient etcdCfg],
                           Inr \<lparr>pdCli = pdCli', etcdCli = etcdCli', subscriber = NilSlice,
                                components = NilSlice, notifyCh = make_chan 1,
                                closed = make_chan 0\<rparr>))))"

text \<open>
  \<open>Subscribe\<close>: a new mailbox of capacity one is appended to \<open>subscriber\<close> (under the
  mutex), then the refresh signal is sent without blocking. Returns the new mailbox's handle.
\<close>

definition Subscribe :: "('p, 'e) TopologyDiscoverer \<Rightarrow> nat \<times> ('p, 'e) TopologyDiscoverer" where
  "Subscribe d =
     (let ch = make_chan 1;
          d1 = d\<lparr>subscriber := append_slice (subscriber d) [ch]\<rparr>;
          d2 = d1\<lparr>notifyCh := try_send (notifyCh d1) ()\<rparr>
      in (len (subscriber d), d2))"

text \<open>\<open>loadTopology\<close> returns the error of the cycle, \<open>None\<close> for Go's \<open>nil\<close>.\<close>

definition loadTopology ::
  "('p, 'e) TopologyDiscoverer \<Rightarrow> upstream \<Rightarrow> ('p, 'e) TopologyDiscoverer \<times> error option" where
  "loadTopology d up =
     (case getAllScrapeTargets up of
        Inl err \<Rightarrow> (d, Some err)
      | Inr components' \<Rightarrow> (d\<lparr>components := components'\<rparr>, None))"

text \<open>The loop of \<open>notifySubscriber\<close> over the mailboxes.\<close>

fun notify_range :: "Component slice chan list \<Rightarrow> Component slice \<Rightarrow> Component slice chan list" where
  "notify_range [] cs = []"
| "notify_range (ch # chs) cs = try_send ch cs # notify_range chs cs"

definition notifySubscriber :: "('p, 'e) TopologyDiscoverer \<Rightarrow> ('p, 'e) TopologyDiscoverer" where
  "notifySubscriber d =
     (case subscriber d of
        NilSlice \<Rightarrow> d
      | Slice chs \<Rightarrow> d\<lparr>subscriber := Slice (notify_range chs (components d))\<rparr>)"

section \<open>The control loop\<close>

datatype level = LevelInfo | LevelError | LevelDebug

text \<open>A log line: level, message, the logged \<open>component\<close> field and the logged error.\<close>

type_synonym log_entry = "level \<times> string \<times> Component slice option \<times> error option"

text \<open>The part of \<open>loadTopologyLoop\<close> before its \<open>for\<close> loop.\<close>

definition first_load ::
  "upstream \<Rightarrow> ('p, 'e) TopologyDiscoverer \<times> log_entry list
     \<Rightarrow> ('p, 'e) TopologyDiscoverer \<times> log_entry list" where
  "first_load up st =
     (case loadTopology (fst st) up of
        (d', err) \<Rightarrow>
          (d', snd st @ [(LevelInfo, ''first load topology'', Some (components d'), err)]))"

text \<open>
  A receive is ready on a channel that holds a value or was closed; it takes the oldest value.
\<close>

definition can_recv :: "'a chan \<Rightarrow> bool" where
  "can_recv ch = (chan_buf ch \<noteq> [] \<or> chan_closed ch)"

definition recv :: "'a chan \<Rightarrow> 'a chan" where
  "recv ch = ch\<lparr>chan_buf := tl (chan_buf ch)\<rparr>"

text \<open>
  One pass through the \<open>select\<close> of the loop. The case taken is chosen by the scheduler among
  the ready ones; \<open>None\<close> says the chosen case is not ready. The ticker is ready whenever its
  interval has elapsed, which is left to the scheduler. \<open>up\<close> is what the registries would
  answer during this pass. The flag of the result tells whether the loop returned.
\<close>

datatype select_case = RecvClosed | RecvTicker | RecvNotifyCh

fun loop_iter ::
  "select_case \<Rightarrow> upstream \<Rightarrow> ('p, 'e) TopologyDiscoverer \<times> log_entry list
     \<Rightarrow> ((('p, 'e) TopologyDiscoverer \<times> log_entry list) \<times> bool) option" where
  "loop_iter RecvClosed up (d, lg) =
     (if can_recv (closed d) then Some ((d\<lparr>closed := recv (closed d)\<rparr>, lg), True) else None)"
| "loop_iter RecvTicker up (d, lg) =
     (case loadTopology d up of
        (d', Some err) \<Rightarrow>
          Some ((notifySubscriber d',
                 lg @ [(LevelError, ''load topology failed'', None, Some err)]), False)
      | (d', None) \<Rightarrow>
          Some ((notifySubscriber d',
                 lg @ [(LevelDebug, ''load topology success'', Some (components d'), None)]),
                False))"
| "loop_iter RecvNotifyCh up (d, lg) =
     (if can_recv (notifyCh d)
      then Some ((notifySubscriber (d\<lparr>notifyCh := recv (notifyCh d)\<rparr>), lg), False)
      else None)"

section \<open>The discoverer among its goroutines\<close>

text \<open>
  The discoverer is shared by the loop's goroutine, the callers of \<open>Subscribe\<close> and
  \<open>Close\<close>, and the subscribers reading their mailboxes. A run is a sequence of their
  actions, each taken as a whole. \<open>Start\<close> launches the loop once.
\<close>

datatype phase = NotStarted | FirstLoad | Selecting | Returned

record ('p, 'e) system =
  disc :: "('p, 'e) TopologyDiscoverer"
  logs :: "log_entry list"
  phase_of :: phase

datatype action =
  ActSubscribe
| ActRead nat
| ActClose
| ActStart
| ActFirstLoad upstream
| ActSelect select_case upstream

text \<open>\<open>Close\<close>: closing a channel that is already closed panics (\<open>None\<close>).\<close>

definition Close :: "('p, 'e) TopologyDiscoverer \<Rightarrow> ('p, 'e) TopologyDiscoverer option" where
  "Close d =
     (if chan_closed (closed d) then None
      else Some (d\<lparr>closed := (closed d)\<lparr>chan_closed := True\<rparr>\<rparr>))"

text \<open>A subscriber takes the snapshot waiting in mailbox \<open>i\<close>, if there is one.\<close>

definition read_mailbox :: "nat \<Rightarrow> ('p, 'e) TopologyDiscoverer \<Rightarrow> ('p, 'e) TopologyDiscoverer option" where
  "read_mailbox i d =
     (case subscriber d of
        NilSlice \<Rightarrow> None
      | Slice chs \<Rightarrow>
          (if i < length chs \<and> chan_buf (chs ! i) \<noteq> []
           then Some (d\<lparr>subscriber := Slice (chs[i := recv (chs ! i)])\<rparr>)
           else None))"

fun step :: "action \<Rightarrow> ('p, 'e) system \<Rightarrow> ('p, 'e) system option" where
  "step ActSubscribe s = Some (s\<lparr>disc := snd (Subscribe (disc s))\<rparr>)"
| "step (ActRead i) s =
     (case read_mailbox i (disc s) of None \<Rightarrow> None | Some d' \<Rightarrow> Some (s\<lparr>disc := d'\<rparr>))"
| "step ActClose s =
     (case Close (disc s) of None \<Rightarrow> None | Some d' \<Rightarrow> Some (s\<lparr>disc := d'\<rparr>))"
| "step ActStart s =
     (if phase_of s = NotStarted then Some (s\<lparr>phase_of := FirstLoad\<rparr>) else None)"
| "step (ActFirstLoad up) s =
     (if phase_of s = FirstLoad
      then (case first_load up (disc s, logs s) of
              (d', lg') \<Rightarrow> Some (s\<lparr>disc := d', logs := lg', phase_of := Selecting\<rparr>))
      else None)"
| "step (ActSelect c up) s =
     (if phase_of s = Selecting
      then (case loop_iter c up (disc s, logs s) of
              None \<Rightarrow> None
            | Some ((d', lg'), returned) \<Rightarrow>
                Some (s\<lparr>disc := d', logs := lg',
                        phase_of := (if returned then Returned else Selecting)\<rparr>))
      else None)"

fun run :: "action list \<Rightarrow> ('p, 'e) system \<Rightarrow> ('p, 'e) system option" where
  "run [] s = Some s"
| "run (a # as) s = (case step a s of None \<Rightarrow> None | Some s' \<Rightarrow> run as s')"

definition start_system :: "('p, 'e) TopologyDiscoverer \<Rightarrow> ('p, 'e) system" where
  "start_system d = \<lparr>disc = d, logs = [], phase_of = NotStarted\<rparr>"

text \<open>The registry answers used by the aggregation cycles of a run.\<close>

fun cycles :: "action list \<Rightarrow> upstream list" where
  "cycles [] = []"
| "cycles (ActFirstLoad up # as) = up # cycles as"
| "cycles (ActSelect RecvTicker up # as) = up # cycles as"
| "cycles (_ # as) = cycles as"

section \<open>Subscribe and notifySubscriber statement by statement\<close>

text \<open>
  To see how \<open>Subscribe\<close> and \<open>notifySubscriber\<close> interleave, each is split into its
  statements, and the \<open>sync.Mutex\<close> embedded in the struct is added: \<open>mutex\<close> is the
  goroutine inside \<open>d.Lock()\<close> \<dots> \<open>d.Unlock()\<close>, if any. Every caller of
  \<open>Subscribe\<close> and the loop's \<open>notifySubscriber\<close> have a program point.

  The statements of \<open>Subscribe\<close> after \<open>ch := make(chan []Component, 1)\<close>, which
  touches nothing shared: \<open>d.Lock()\<close>, the append, \<open>d.Unlock()\<close>, the non-blocking send
  on \<open>notifyCh\<close>.
\<close>

datatype sub_pc = SubLock | SubAppend | SubUnlock | SubSignal | SubReturned

text \<open>
  The statements of \<open>notifySubscriber\<close>: the \<open>range\<close> expression \<open>d.subscriber\<close> is
  evaluated once, which fixes the number \<open>n\<close> of mailboxes of this pass; then comes one
  non-blocking send per mailbox, \<open>NotifySend i n\<close> being the send to mailbox \<open>i\<close>. (The
  slice only grows, so position \<open>i\<close> is the same mailbox whenever it is reached.)
\<close>

datatype notify_pc = NotifyRange | NotifySend nat nat | NotifyReturned

record ('p, 'e) conc =
  shared :: "('p, 'e) TopologyDiscoverer"
  mutex :: "nat option"
  callers :: "sub_pc list"
  notifier :: notify_pc

text \<open>
  The next statement of caller \<open>g\<close> of \<open>Subscribe\<close>. \<open>None\<close>: the statement cannot
  run now. \<open>d.Lock()\<close> waits while the mutex is held; \<open>d.Unlock()\<close> of a mutex that is
  not held is a fatal error; a caller that has returned has no statement left.
\<close>

definition sub_step :: "nat \<Rightarrow> ('p, 'e) conc \<Rightarrow> ('p, 'e) conc option" where
  "sub_step g c =
     (if g < length (callers c)
      then (case callers c ! g of
              SubLock \<Rightarrow>
                (if mutex c = None
                 then Some (c\<lparr>mutex := Some g, callers := (callers c)[g := SubAppend]\<rparr>)
                 else None)
            | SubAppend \<Rightarrow>
                Some (c\<lparr>shared := (shared c)
                                    \<lparr>subscriber :=
                                       append_slice (subscriber (shared c)) [make_chan 1]\<rparr>,
                        callers := (callers c)[g := SubUnlock]\<rparr>)
            | SubUnlock \<Rightarrow>
                (if mutex c = None then None
                 else Some (c\<lparr>mutex := None, callers := (callers c)[g := SubSignal]\<rparr>))
            | SubSignal \<Rightarrow>
                Some (c\<lparr>shared := (shared c)
                                    \<lparr>notifyCh := try_send (notifyCh (shared c)) ()\<rparr>,
                        callers := (callers c)[g := SubReturned]\<rparr>)
            | SubReturned \<Rightarrow> None)
      else None)"

text \<open>
  The next statement of \<open>notifySubscriber\<close>. Neither the \<open>range\<close> nor a send looks at
  the mutex: the function never calls \<open>d.Lock()\<close>.
\<close>

definition notify_step :: "('p, 'e) conc \<Rightarrow> ('p, 'e) conc option" where
  "notify_step c =
     (case notifier c of
        NotifyRange \<Rightarrow>
          Some (c\<lparr>notifier :=
                    (if len (subscriber (shared c)) = 0 then NotifyReturned
                     else NotifySend 0 (len (subscriber (shared c))))\<rparr>)
      | NotifySend i n \<Rightarrow>
          (case subscriber (shared c) of
             NilSlice \<Rightarrow> None
           | Slice chs \<Rightarrow>
               (if i < length chs
                then Some (c\<lparr>shared := (shared c)
                                        \<lparr>subscriber :=
                                           Slice (chs[i := try_send (chs ! i)
                                                              (components (shared c))])\<rparr>,
                             notifier :=
                               (if Suc i < n then NotifySend (Suc i) n else NotifyReturned)\<rparr>)
                else None))
      | NotifyReturned \<Rightarrow> None)"

datatype thread = Caller nat | Notifier

fun thread_step :: "thread \<Rightarrow> ('p, 'e) conc \<Rightarrow> ('p, 'e) conc option" where
  "thread_step (Caller g) c = sub_step g c"
| "thread_step Notifier c = notify_step c"

fun schedule :: "thread list \<Rightarrow> ('p, 'e) conc \<Rightarrow> ('p, 'e) conc option" where
  "schedule [] c = Some c"
| "schedule (t # ts) c = (case thread_step t c of None \<Rightarrow> None | Some c' \<Rightarrow> schedule ts c')"

section \<open>Notions used to state the properties\<close>

text \<open>The instances an adapter keeps, and the record it builds for each.\<close>

abbreviation tidb_up :: "TiDBInfo list \<Rightarrow> TiDBInfo list" where
  "tidb_up \<equiv> filter (\<lambda>i. tidb_Status i = ComponentStatusUp)"

abbreviation pd_up :: "PDInfo list \<Rightarrow> PDInfo list" where
  "pd_up \<equiv> filter (\<lambda>i. pd_Status i = ComponentStatusUp)"

abbreviation store_up :: "StoreInfo list \<Rightarrow> StoreInfo list" where
  "store_up \<equiv> filter (\<lambda>i. store_Status i = ComponentStatusUp)"

abbreviation tidb_record :: "TiDBInfo \<Rightarrow> Component" where
  "tidb_record \<equiv>
     (\<lambda>i. \<lparr>Name = ''tidb'', IP = tidb_IP i, Port = tidb_Port i, StatusPort = tidb_StatusPort i\<rparr>)"

abbreviation pd_record :: "PDInfo \<Rightarrow> Component" where
  "pd_record \<equiv> (\<lambda>i. \<lparr>Name = ''pd'', IP = pd_IP i, Port = pd_Port i, StatusPort = pd_Port i\<rparr>)"

abbreviation store_record :: "string \<Rightarrow> StoreInfo \<Rightarrow> Component" where
  "store_record \<equiv>
     (\<lambda>name i. \<lparr>Name = name, IP = store_IP i, Port = store_Port i,
                 StatusPort = store_StatusPort i\<rparr>)"

text \<open>
  \<open>reported_up up c\<close>: the record \<open>c\<close> is the record of an instance that the registry
  answers \<open>up\<close> report with status up.
\<close>

definition reported_up :: "upstream \<Rightarrow> Component \<Rightarrow> bool" where
  "reported_up up c =
     ((case GetTiDBInstances up of
         Inl _ \<Rightarrow> False
       | Inr ts \<Rightarrow> c \<in> set (map tidb_record (tidb_up ts)))
      \<or> (case GetPDInstances up of
            Inl _ \<Rightarrow> False
          | Inr ps \<Rightarrow> c \<in> set (map pd_record (pd_up ps)))
      \<or> (case GetStoreInstances up of
            Inl _ \<Rightarrow> False
          | Inr (kvs, fls) \<Rightarrow>
              c \<in> set (map (store_record ''tikv'') (store_up kvs))
              \<or> c \<in> set (map (store_record ''tiflash'') (store_up fls))))"

text \<open>The registry answers with every instance that is not up removed.\<close>

definition without_down :: "upstream \<Rightarrow> upstream" where
  "without_down up =
     \<lparr>GetTiDBInstances = map_sum id tidb_up (GetTiDBInstances up),
      GetPDInstances = map_sum id pd_up (GetPDInstances up),
      GetStoreInstances = map_sum id (map_prod store_up store_up) (GetStoreInstances up)\<rparr>"

text \<open>The registry answers of a cluster with no instance at all.\<close>

definition empty_cluster :: upstream where
  "empty_cluster =
     \<lparr>GetTiDBInstances = Inr [], GetPDInstances = Inr [], GetStoreInstances = Inr ([], [])\<rparr>"

text \<open>
  A snapshot is accounted for by the cycles \<open>U\<close> when it is \<open>nil\<close> or the result of a
  successful aggregation over the answers of one of them.
\<close>

definition snapshot_ok :: "upstream set \<Rightarrow> Component slice \<Rightarrow> bool" where
  "snapshot_ok U sn = (sn = NilSlice \<or> (\<exists>up\<in>U. getAllScrapeTargets up = Inr sn))"

definition mailbox_ok :: "'a chan \<Rightarrow> bool" where
  "mailbox_ok ch = (chan_cap ch = 1 \<and> length (chan_buf ch) \<le> 1)"

definition mailboxes :: "('p, 'e) TopologyDiscoverer \<Rightarrow> Component slice chan list" where
  "mailboxes d = elems (subscriber d)"

text \<open>Every snapshot held anywhere: the current one and those waiting in mailboxes.\<close>

definition snapshots :: "('p, 'e) TopologyDiscoverer \<Rightarrow> Component slice list" where
  "snapshots d = components d # concat (map chan_buf (mailboxes d))"

definition discoverer_inv :: "upstream set \<Rightarrow> ('p, 'e) TopologyDiscoverer \<Rightarrow> bool" where
  "discoverer_inv U d =
     ((\<forall>sn\<in>set (snapshots d). snapshot_ok U sn)
      \<and> (\<forall>ch\<in>set (mailboxes d). mailbox_ok ch)
      \<and> mailbox_ok (notifyCh d))"

section \<open>Example inputs\<close>

text \<open>The scenario of the specification: one healthy instance of three tiers.\<close>

definition scenario_upstream :: upstream where
  "scenario_upstream =
     \<lparr>GetTiDBInstances =
        Inr [\<lparr>tidb_IP = ''10.0.0.1'', tidb_Port = 4000, tidb_StatusPort = 10080,
              tidb_Status = ComponentStatusUp\<rparr>],
      GetPDInstances =
        Inr [\<lparr>pd_IP = ''10.0.0.2'', pd_Port = 2379, pd_Status = ComponentStatusUp\<rparr>],
      GetStoreInstances =
        Inr ([\<lparr>store_IP = ''10.0.0.3'', store_Port = 20160, store_StatusPort = 20180,
               store_Status = ComponentStatusUp\<rparr>], [])\<rparr>"

definition scenario_snapshot :: "Component slice" where
  "scenario_snapshot =
     Slice [\<lparr>Name = ''tidb'', IP = ''10.0.0.1'', Port = 4000, StatusPort = 10080\<rparr>,
            \<lparr>Name = ''pd'', IP = ''10.0.0.2'', Port = 2379, StatusPort = 2379\<rparr>,
            \<lparr>Name = ''tikv'', IP = ''10.0.0.3'', Port = 20160, StatusPort = 20180\<rparr>]"

text \<open>The same cluster while the PD API does not answer.\<close>

definition pd_error_upstream :: upstream where
  "pd_error_upstream = scenario_upstream\<lparr>GetPDInstances := Inl (Errorf ''pd unreachable'')\<rparr>"

text \<open>A cluster with a second TiDB that is down, a tombstoned TiKV and an offline TiFlash.\<close>

definition degraded_upstream :: upstream where
  "degraded_upstream =
     \<lparr>GetTiDBInstances =
        Inr [\<lparr>tidb_IP = ''10.0.0.9'', tidb_Port = 4000, tidb_StatusPort = 10080,
              tidb_Status = ComponentStatusDown\<rparr>,
             \<lparr>tidb_IP = ''10.0.0.1'', tidb_Port = 4000, tidb_StatusPort = 10080,
              tidb_Status = ComponentStatusUp\<rparr>],
      GetPDInstances =
        Inr [\<lparr>pd_IP = ''10.0.0.2'', pd_Port = 2379, pd_Status = ComponentStatusUp\<rparr>],
      GetStoreInstances =
        Inr ([\<lparr>store_IP = ''10.0.0.3'', store_Port = 20160, store_StatusPort = 20180,
               store_Status = ComponentStatusUp\<rparr>,
              \<lparr>store_IP = ''10.0.0.4'', store_Port = 20160, store_StatusPort = 20180,
               store_Status = ComponentStatusTombstone\<rparr>],
             [\<lparr>store_IP = ''10.0.0.5'', store_Port = 3930, store_StatusPort = 20292,
               store_Status = ComponentStatusOffline\<rparr>])\<rparr>"

text \<open>A cluster none of whose instances is up.\<close>

definition all_down_upstream :: upstream where
  "all_down_upstream =
     \<lparr>GetTiDBInstances =
        Inr [\<lparr>tidb_IP = ''10.0.0.1'', tidb_Port = 4000, tidb_StatusPort = 10080,
              tidb_Status = ComponentStatusDown\<rparr>],
      GetPDInstances =
        Inr [\<lparr>pd_IP = ''10.0.0.2'', pd_Port = 2379, pd_Status = ComponentStatusUnreachable\<rparr>],
      GetStoreInstances =
        Inr ([\<lparr>store_IP = ''10.0.0.3'', store_Port = 20160, store_StatusPort = 20180,
               store_Status = ComponentStatusTombstone\<rparr>],
             [\<lparr>store_IP = ''10.0.0.5'', store_Port = 3930, store_StatusPort = 20292,
               store_Status = ComponentStatusOffline\<rparr>])\<rparr>"

text \<open>A configuration with one PD endpoint, and the discoverer built from it.\<close>

definition example_config :: "unit Config" where
  "example_config =
     \<lparr>PD_Endpoints = [''127.0.0.1:2379''], GetHTTPScheme = ''http'', GetTLSConfig = ()\<rparr>"

definition example_discoverer :: "(unit, unit) TopologyDiscoverer" where
  "example_discoverer =
     \<lparr>pdCli = (), etcdCli = (), subscriber = NilSlice, components = NilSlice,
      notifyCh = make_chan 1, closed = make_chan 0\<rparr>"

text \<open>
  A discoverer with one subscriber and the scenario's snapshot, at the moment when one more
  caller enters \<open>Subscribe\<close> and the loop enters \<open>notifySubscriber\<close>.
\<close>

definition racing_example :: "(unit, unit) conc" where
  "racing_example =
     \<lparr>shared = example_discoverer
                 \<lparr>subscriber := Slice [make_chan 1], components := scenario_snapshot\<rparr>,
      mutex = None, callers = [SubLock], notifier = NotifyRange\<rparr>"

section \<open>The adapters as filters and maps\<close>

lemma tidb_range_acc:
  "tidb_range instances (Slice acc) = Slice (acc @ map tidb_record (tidb_up instances))"
  by (induction instances arbitrary: acc) (simp_all add: ComponentTiDB_def)

lemma pd_range_acc:
  "pd_range instances (Slice acc) = Slice (acc @ map pd_record (pd_up instances))"
  by (induction instances arbitrary: acc) (simp_all add: ComponentPD_def)

lemma getComponents_acc:
  "getComponents instances name (Slice acc) =
     Slice (acc @ map (store_record name) (store_up instances))"
  by (induction instances arbitrary: acc) simp_all

lemma getTiDBComponents_eq:
  "getTiDBComponents up =
     (case GetTiDBInstances up of
        Inl err \<Rightarrow> Inl err
      | Inr instances \<Rightarrow> Inr (Slice (map tidb_record (tidb_up instances))))"
  by (simp add: getTiDBComponents_def make_slice_def tidb_range_acc split: sum.splits)

lemma getPDComponents_eq:
  "getPDComponents up =
     (case GetPDInstances up of
        Inl err \<Rightarrow> Inl err
      | Inr instances \<Rightarrow> Inr (Slice (map pd_record (pd_up instances))))"
  by (simp add: getPDComponents_def make_slice_def pd_range_acc split: sum.splits)

lemma getStoreComponents_eq:
  "getStoreComponents up =
     (case GetStoreInstances up of
        Inl err \<Rightarrow> Inl err
      | Inr (kvs, fls) \<Rightarrow>
          Inr (Slice (map (store_record ''tikv'') (store_up kvs)
                      @ map (store_record ''tiflash'') (store_up fls))))"
  by (simp add: getStoreComponents_def make_slice_def getComponents_acc ComponentTiKV_def
      ComponentTiFlash_def split: sum.splits prod.splits)

lemma getAllScrapeTargets_eq:
  "getAllScrapeTargets up =
     (case getTiDBComponents up of
        Inl err \<Rightarrow> Inl err
      | Inr a \<Rightarrow>
          (case getPDComponents up of
             Inl err \<Rightarrow> Inl err
           | Inr b \<Rightarrow>
               (case getStoreComponents up of
                  Inl err \<Rightarrow> Inl err
                | Inr c \<Rightarrow> Inr (Slice (elems a @ elems b @ elems c)))))"
  by (simp add: getAllScrapeTargets_def make_slice_def split: sum.splits)

lemma getAllScrapeTargets_registries:
  "getAllScrapeTargets up =
     (case GetTiDBInstances up of
        Inl err \<Rightarrow> Inl err
      | Inr ts \<Rightarrow>
          (case GetPDInstances up of
             Inl err \<Rightarrow> Inl err
           | Inr ps \<Rightarrow>
               (case GetStoreInstances up of
                  Inl err \<Rightarrow> Inl err
                | Inr (kvs, fls) \<Rightarrow>
                    Inr (Slice (map tidb_record (tidb_up ts) @ map pd_record (pd_up ps)
                                @ map (store_record ''tikv'') (store_up kvs)
                                @ map (store_record ''tiflash'') (store_up fls))))))"
  by (simp add: getAllScrapeTargets_eq getTiDBComponents_eq getPDComponents_eq
      getStoreComponents_eq split: sum.splits prod.splits)

lemma adapter_error_fails_cycle:
  assumes "getTiDBComponents up = Inl e \<or> getPDComponents up = Inl e
           \<or> getStoreComponents up = Inl e"
  shows "\<exists>err. getAllScrapeTargets up = Inl err"
  using assms by (auto simp: getAllScrapeTargets_eq split: sum.splits)

lemma getAllScrapeTargets_reported_up:
  assumes "getAllScrapeTargets up = Inr sn" and "c \<in> set (elems sn)"
  shows "reported_up up c"
proof -
  obtain ts ps kvs fls where r: "GetTiDBInstances up = Inr ts" "GetPDInstances up = Inr ps"
      "GetStoreInstances up = Inr (kvs, fls)"
    using assms(1) by (auto simp: getAllScrapeTargets_registries split: sum.splits prod.splits)
  then have "sn = Slice (map tidb_record (tidb_up ts) @ map pd_record (pd_up ps)
                         @ map (store_record ''tikv'') (store_up kvs)
                         @ map (store_record ''tiflash'') (store_up fls))"
    using assms(1) by (simp add: getAllScrapeTargets_registries)
  then have "c \<in> set (map tidb_record (tidb_up ts)) \<or> c \<in> set (map pd_record (pd_up ps))
             \<or> c \<in> set (map (store_record ''tikv'') (store_up kvs))
             \<or> c \<in> set (map (store_record ''tiflash'') (store_up fls))"
    using assms(2) by auto
  then show ?thesis using r unfolding reported_up_def by auto
qed

lemma getAllScrapeTargets_without_down:
  "getAllScrapeTargets (without_down up) = getAllScrapeTargets up"
proof (cases "GetTiDBInstances up")
  case (Inl e)
  then show ?thesis by (simp add: getAllScrapeTargets_registries without_down_def)
next
  case ts: (Inr ts)
  show ?thesis
  proof (cases "GetPDInstances up")
    case (Inl e)
    then show ?thesis using ts by (simp add: getAllScrapeTargets_registries without_down_def)
  next
    case ps: (Inr ps)
    show ?thesis
    proof (cases "GetStoreInstances up")
      case (Inl e)
      then show ?thesis using ts ps
        by (simp add: getAllScrapeTargets_registries without_down_def)
    next
      case (Inr st)
      then show ?thesis using ts ps
        by (cases st) (simp add: getAllScrapeTargets_registries without_down_def)
    qed
  qed
qed

section \<open>Mailboxes and notification\<close>

lemma elems_append_slice: "elems (append_slice s xs) = elems s @ xs"
  by (cases s) auto

lemma try_send_mailbox_ok: "mailbox_ok ch \<Longrightarrow> mailbox_ok (try_send ch v)"
  by (auto simp: mailbox_ok_def try_send_def)

lemma try_send_buf: "set (chan_buf (try_send ch v)) \<subseteq> insert v (set (chan_buf ch))"
  by (auto simp: try_send_def)

lemma try_send_empty:
  "mailbox_ok ch \<Longrightarrow> chan_buf ch = [] \<Longrightarrow> chan_buf (try_send ch v) = [v]"
  by (simp add: mailbox_ok_def try_send_def)

lemma try_send_full: "mailbox_ok ch \<Longrightarrow> chan_buf ch \<noteq> [] \<Longrightarrow> try_send ch v = ch"
  by (cases "chan_buf ch") (auto simp: mailbox_ok_def try_send_def)

lemma recv_mailbox_ok: "mailbox_ok ch \<Longrightarrow> mailbox_ok (recv ch)"
  by (auto simp: mailbox_ok_def recv_def)

lemma recv_buf: "set (chan_buf (recv ch)) \<subseteq> set (chan_buf ch)"
  by (cases "chan_buf ch") (auto simp: recv_def)

lemma notify_range_set:
  "ch' \<in> set (notify_range chs cs) \<Longrightarrow> \<exists>ch\<in>set chs. ch' = try_send ch cs"
  by (induction chs) auto

lemma length_notify_range: "length (notify_range chs cs) = length chs"
  by (induction chs) auto

lemma nth_notify_range:
  "i < length chs \<Longrightarrow> notify_range chs cs ! i = try_send (chs ! i) cs"
proof (induction chs arbitrary: i)
  case Nil
  then show ?case by simp
next
  case (Cons ch chs)
  then show ?case by (cases i) auto
qed

lemma mailboxes_notifySubscriber:
  "mailboxes (notifySubscriber d) = notify_range (mailboxes d) (components d)"
  by (cases "subscriber d") (simp_all add: mailboxes_def notifySubscriber_def)

lemma components_notifySubscriber: "components (notifySubscriber d) = components d"
  by (cases "subscriber d") (simp_all add: notifySubscriber_def)

lemma notifyCh_notifySubscriber: "notifyCh (notifySubscriber d) = notifyCh d"
  by (cases "subscriber d") (simp_all add: notifySubscriber_def)

lemma mailboxes_loadTopology: "mailboxes (fst (loadTopology d up)) = mailboxes d"
  by (simp add: loadTopology_def mailboxes_def split: sum.splits)

lemma components_loadTopology:
  "components (fst (loadTopology d up)) =
     (case getAllScrapeTargets up of Inl err \<Rightarrow> components d | Inr cs \<Rightarrow> cs)"
  by (simp add: loadTopology_def split: sum.splits)

lemma fst_first_load: "fst (first_load up (d, lg)) = fst (loadTopology d up)"
  by (cases "loadTopology d up") (simp add: first_load_def)

lemma loop_iter_ticker:
  "\<exists>lg'. loop_iter RecvTicker up (d, lg) =
           Some ((notifySubscriber (fst (loadTopology d up)), lg'), False)"
  by (cases "loadTopology d up") (auto split: option.splits)

section \<open>What every run preserves\<close>

lemma snapshot_ok_mono: "snapshot_ok U sn \<Longrightarrow> U \<subseteq> V \<Longrightarrow> snapshot_ok V sn"
  by (auto simp: snapshot_ok_def)

lemma inv_Subscribe: "discoverer_inv U d \<Longrightarrow> discoverer_inv U (snd (Subscribe d))"
  by (auto simp: discoverer_inv_def Subscribe_def Let_def snapshots_def mailboxes_def
      elems_append_slice make_chan_def mailbox_ok_def try_send_def)

lemma inv_notifySubscriber:
  assumes "discoverer_inv U d"
  shows "discoverer_inv U (notifySubscriber d)"
proof -
  have c: "snapshot_ok U (components d)"
    using assms by (simp add: discoverer_inv_def snapshots_def)
  have "mailbox_ok ch' \<and> (\<forall>sn\<in>set (chan_buf ch'). snapshot_ok U sn)"
    if mem: "ch' \<in> set (notify_range (mailboxes d) (components d))" for ch'
  proof -
    obtain ch where ch: "ch \<in> set (mailboxes d)" "ch' = try_send ch (components d)"
      using notify_range_set [OF mem] by blast
    have "mailbox_ok ch" "\<forall>sn\<in>set (chan_buf ch). snapshot_ok U sn"
      using assms ch(1) by (auto simp: discoverer_inv_def snapshots_def)
    then show ?thesis
      using ch(2) c try_send_buf [of ch "components d"] by (auto intro: try_send_mailbox_ok)
  qed
  then show ?thesis
    using assms
    by (auto simp: discoverer_inv_def snapshots_def mailboxes_notifySubscriber
        components_notifySubscriber notifyCh_notifySubscriber)
qed

lemma inv_loadTopology:
  "discoverer_inv U d \<Longrightarrow> discoverer_inv (insert up U) (fst (loadTopology d up))"
  by (auto simp: discoverer_inv_def loadTopology_def snapshots_def mailboxes_def snapshot_ok_def
      split: sum.splits)

lemma inv_notifyCh_update:
  "discoverer_inv U d \<Longrightarrow> mailbox_ok ch \<Longrightarrow> discoverer_inv U (d\<lparr>notifyCh := ch\<rparr>)"
  by (simp add: discoverer_inv_def snapshots_def mailboxes_def)

lemma inv_closed_update: "discoverer_inv U d \<Longrightarrow> discoverer_inv U (d\<lparr>closed := ch\<rparr>)"
  by (simp add: discoverer_inv_def snapshots_def mailboxes_def)

lemma inv_loop_iter:
  assumes "discoverer_inv U d" and "loop_iter c up (d, lg) = Some ((d', lg'), r)"
  shows "discoverer_inv (U \<union> set (cycles [ActSelect c up])) d'"
proof (cases c)
  case RecvClosed
  then show ?thesis using assms by (auto split: if_splits intro: inv_closed_update)
next
  case RecvTicker
  then have "d' = notifySubscriber (fst (loadTopology d up))"
    using assms(2) loop_iter_ticker [of up d lg] by auto
  then show ?thesis
    using RecvTicker inv_notifySubscriber [OF inv_loadTopology [OF assms(1), of up]] by simp
next
  case RecvNotifyCh
  then have "d' = notifySubscriber (d\<lparr>notifyCh := recv (notifyCh d)\<rparr>)"
    using assms(2) by (auto split: if_splits)
  moreover have "mailbox_ok (recv (notifyCh d))"
    using assms(1) by (auto simp: discoverer_inv_def intro: recv_mailbox_ok)
  ultimately show ?thesis
    using RecvNotifyCh assms(1) by (auto intro!: inv_notifySubscriber inv_notifyCh_update)
qed

lemma inv_read_mailbox:
  assumes "discoverer_inv U d" and "read_mailbox i d = Some d'"
  shows "discoverer_inv U d'"
proof (cases "subscriber d")
  case NilSlice
  then show ?thesis using assms by (simp add: read_mailbox_def)
next
  case (Slice chs)
  then have i: "i < length chs"
    and d': "d' = d\<lparr>subscriber := Slice (chs[i := recv (chs ! i)])\<rparr>"
    using assms(2) by (auto simp: read_mailbox_def split: if_splits)
  have old: "mailbox_ok ch \<and> (\<forall>sn\<in>set (chan_buf ch). snapshot_ok U sn)"
    if "ch \<in> set chs" for ch
    using assms(1) Slice that by (auto simp: discoverer_inv_def mailboxes_def snapshots_def)
  have "mailbox_ok ch' \<and> (\<forall>sn\<in>set (chan_buf ch'). snapshot_ok U sn)"
    if mem: "ch' \<in> set (chs[i := recv (chs ! i)])" for ch'
  proof -
    from mem have "ch' \<in> insert (recv (chs ! i)) (set chs)"
      using set_update_subset_insert by fastforce
    then show ?thesis
    proof
      assume "ch' = recv (chs ! i)"
      then show ?thesis
        using old [of "chs ! i"] i recv_buf [of "chs ! i"] by (auto intro: recv_mailbox_ok)
    next
      assume "ch' \<in> set chs"
      then show ?thesis using old by blast
    qed
  qed
  then show ?thesis
    using assms(1) d' Slice by (auto simp: discoverer_inv_def snapshots_def mailboxes_def)
qed

lemma inv_Close: "discoverer_inv U d \<Longrightarrow> Close d = Some d' \<Longrightarrow> discoverer_inv U d'"
  by (auto simp: Close_def split: if_splits intro: inv_closed_update)

lemma inv_step:
  assumes "discoverer_inv U (disc s)" and "step a s = Some s'"
  shows "discoverer_inv (U \<union> set (cycles [a])) (disc s')"
proof (cases a)
  case ActSubscribe
  then show ?thesis using assms inv_Subscribe [of U "disc s"] by auto
next
  case (ActRead i)
  then show ?thesis using assms by (auto split: option.splits dest: inv_read_mailbox)
next
  case ActClose
  then show ?thesis using assms by (auto split: option.splits dest: inv_Close)
next
  case ActStart
  then show ?thesis using assms by (auto split: if_splits)
next
  case (ActFirstLoad up)
  then have "disc s' = fst (first_load up (disc s, logs s))"
    using assms(2) by (auto split: if_splits prod.splits)
  then show ?thesis
    using ActFirstLoad inv_loadTopology [OF assms(1), of up] by (simp add: fst_first_load)
next
  case (ActSelect c up)
  then obtain d' lg' r
    where "loop_iter c up (disc s, logs s) = Some ((d', lg'), r)" and "disc s' = d'"
    using assms(2) by (auto split: if_splits option.splits)
  then show ?thesis
    using ActSelect inv_loop_iter [OF assms(1), of c up "logs s" d' lg' r] by simp
qed

lemma cycles_Cons: "cycles (a # as) = cycles [a] @ cycles as"
  by (induction "a # as" rule: cycles.induct) auto

lemma inv_run:
  "discoverer_inv U (disc s) \<Longrightarrow> run acts s = Some s'
     \<Longrightarrow> discoverer_inv (U \<union> set (cycles acts)) (disc s')"
proof (induction acts arbitrary: s U)
  case Nil
  then show ?case by simp
next
  case (Cons a acts)
  then obtain s1 where s1: "step a s = Some s1" "run acts s1 = Some s'"
    by (auto split: option.splits)
  have "discoverer_inv (U \<union> set (cycles [a]) \<union> set (cycles acts)) (disc s')"
    using Cons.IH [OF inv_step [OF Cons.prems(1) s1(1)] s1(2)] .
  moreover have "set (cycles (a # acts)) = set (cycles [a]) \<union> set (cycles acts)"
    using cycles_Cons [of a acts] by simp
  ultimately show ?case by (simp add: Un_assoc)
qed

lemma inv_new: "NewTopologyDiscoverer A E cfg = (calls, Inr d) \<Longrightarrow> discoverer_inv {} d"
  by (auto simp: NewTopologyDiscoverer_def Let_def discoverer_inv_def snapshots_def
      mailboxes_def snapshot_ok_def mailbox_ok_def make_chan_def split: list.splits sum.splits)

lemma inv_reachable:
  assumes "NewTopologyDiscoverer A E cfg = (calls, Inr dn)"
    and "run acts (start_system dn) = Some s"
  shows "discoverer_inv (set (cycles acts)) (disc s)"
  using inv_run [of "{}" "start_system dn" acts s] inv_new [OF assms(1)] assms(2)
  by (simp add: start_system_def)

section \<open>The statements run alone are the functions\<close>

lemma sub_alone:
  assumes "g < length (callers c)" and "callers c ! g = SubLock" and "mutex c = None"
  shows "schedule [Caller g, Caller g, Caller g, Caller g] c =
           Some (c\<lparr>shared := snd (Subscribe (shared c)),
                   callers := (callers c)[g := SubReturned]\<rparr>)"
  using assms by (simp add: sub_step_def Subscribe_def Let_def)

lemma notify_sends:
  "notifier c = NotifySend i n \<Longrightarrow> subscriber (shared c) = Slice chs \<Longrightarrow> n = length chs
     \<Longrightarrow> i < n \<Longrightarrow> k = n - i
     \<Longrightarrow> schedule (replicate k Notifier) c =
           Some (c\<lparr>shared := (shared c)
                               \<lparr>subscriber :=
                                  Slice (take i chs
                                         @ notify_range (drop i chs) (components (shared c)))\<rparr>,
                   notifier := NotifyReturned\<rparr>)"
proof (induction k arbitrary: i c chs)
  case 0
  then show ?case by simp
next
  case (Suc k)
  let ?v = "try_send (chs ! i) (components (shared c))"
  let ?c1 = "c\<lparr>shared := (shared c)\<lparr>subscriber := Slice (chs[i := ?v])\<rparr>,
               notifier := (if Suc i < n then NotifySend (Suc i) n else NotifyReturned)\<rparr>"
  have st: "notify_step c = Some ?c1"
    using Suc.prems by (simp add: notify_step_def)
  have d: "drop i chs = chs ! i # drop (Suc i) chs"
    using Suc.prems by (simp add: Cons_nth_drop_Suc)
  show ?case
  proof (cases "Suc i < n")
    case True
    have "schedule (replicate k Notifier) ?c1 =
        Some (?c1\<lparr>shared := (shared ?c1)
                  \<lparr>subscriber :=
                     Slice (take (Suc i) (chs[i := ?v])
                            @ notify_range (drop (Suc i) (chs[i := ?v]))
                                (components (shared ?c1)))\<rparr>,
                notifier := NotifyReturned\<rparr>)"
      using Suc.prems True by (intro Suc.IH) auto
    moreover have "take (Suc i) (chs[i := ?v]) = take i chs @ [?v]"
      using Suc.prems by (simp add: take_Suc_conv_app_nth)
    ultimately show ?thesis
      using st d by simp
  next
    case False
    then have k: "k = 0" and l: "Suc i = length chs"
      using Suc.prems by auto
    have "chs[i := ?v] = take i chs @ [?v]"
      using l Suc.prems by (simp add: upd_conv_take_nth_drop)
    then show ?thesis
      using st d False k l by simp
  qed
qed

lemma notify_alone:
  assumes "notifier c = NotifyRange"
  shows "schedule (replicate (Suc (len (subscriber (shared c)))) Notifier) c =
           Some (c\<lparr>shared := notifySubscriber (shared c), notifier := NotifyReturned\<rparr>)"
proof (cases "subscriber (shared c)")
  case NilSlice
  then show ?thesis
    using assms by (simp add: notify_step_def len_def notifySubscriber_def)
next
  case (Slice chs)
  show ?thesis
  proof (cases chs)
    case Nil
    then have "(shared c)\<lparr>subscriber := Slice []\<rparr> = shared c"
      using Slice by (metis TopologyDiscoverer.surjective TopologyDiscoverer.update_convs(3))
    then show ?thesis
      using assms Slice Nil by (simp add: notify_step_def len_def notifySubscriber_def)
  next
    case (Cons ch rest)
    let ?c1 = "c\<lparr>notifier := NotifySend 0 (length chs)\<rparr>"
    have "notify_step c = Some ?c1"
      using assms Slice Cons by (simp add: notify_step_def len_def)
    moreover have "schedule (replicate (length chs) Notifier) ?c1 =
        Some (?c1\<lparr>shared := (shared ?c1)
                \<lparr>subscriber :=
                   Slice (take 0 chs
                          @ notify_range (drop 0 chs) (components (shared ?c1)))\<rparr>,
              notifier := NotifyReturned\<rparr>)"
      using Slice Cons by (intro notify_sends) auto
    ultimately show ?thesis
      using Slice by (simp add: len_def notifySubscriber_def)
  qed
qed

section \<open>Who waits for whom\<close>

text \<open>
  A statement of \<open>Subscribe\<close> cannot run only when the caller has returned, when it is at
  \<open>d.Lock()\<close> while the mutex is held, or at \<open>d.Unlock()\<close> of a mutex that is not held.
\<close>

lemma sub_step_blocked:
  "(sub_step g c = None) =
     (length (callers c) \<le> g \<or> callers c ! g = SubReturned
      \<or> (callers c ! g = SubLock \<and> mutex c \<noteq> None)
      \<or> (callers c ! g = SubUnlock \<and> mutex c = None))"
  by (auto simp: sub_step_def split: sub_pc.splits)

text \<open>The notifier never takes the mutex and never moves a caller.\<close>

lemma notify_step_keeps_mutex:
  "notify_step c = Some c' \<Longrightarrow> mutex c' = mutex c \<and> callers c' = callers c"
  by (auto simp: notify_step_def split: notify_pc.splits slice.splits if_splits)

text \<open>So no statement of the notifier makes a caller of \<open>Subscribe\<close> wait.\<close>

lemma notifier_never_blocks_subscribe:
  "notify_step c = Some c' \<Longrightarrow> (sub_step g c' = None) = (sub_step g c = None)"
  using notify_step_keeps_mutex [of c c'] by (simp add: sub_step_blocked)

text \<open>
  Nor does the mutex ever make the notifier wait: its statements run the same whoever holds
  the mutex.
\<close>

lemma notify_step_ignores_mutex:
  "notify_step (c\<lparr>mutex := m\<rparr>) = map_option (\<lambda>c'. c'\<lparr>mutex := m\<rparr>) (notify_step c)"
  by (simp add: notify_step_def split: notify_pc.splits slice.splits)

text \<open>
  Among the callers the mutex does its work: when exactly the holder of the mutex is between
  \<open>d.Lock()\<close> and \<open>d.Unlock()\<close>, this stays so after every statement of every goroutine,
  hence two appends never overlap.
\<close>

lemma lock_discipline_of_callers:
  assumes "\<forall>g<length (callers c).
             (callers c ! g = SubAppend \<or> callers c ! g = SubUnlock) = (mutex c = Some g)"
    and "thread_step t c = Some c'"
  shows "\<forall>g<length (callers c').
           (callers c' ! g = SubAppend \<or> callers c' ! g = SubUnlock) = (mutex c' = Some g)"
proof (cases t)
  case Notifier
  then show ?thesis
    using assms notify_step_keeps_mutex [of c c'] by simp
next
  case (Caller h)
  then have s: "sub_step h c = Some c'"
    using assms(2) by simp
  then have h: "h < length (callers c)"
    by (simp add: sub_step_def split: if_splits)
  have n: "length (callers c') = length (callers c)"
    using s h by (auto simp: sub_step_def split: sub_pc.splits if_splits)
  have ih: "(callers c ! h = SubAppend \<or> callers c ! h = SubUnlock) = (mutex c = Some h)"
    using assms(1) h by blast
  show ?thesis
  proof (intro allI impI)
    fix g
    assume "g < length (callers c')"
    then have g: "g < length (callers c)"
      using n by simp
    then have ig: "(callers c ! g = SubAppend \<or> callers c ! g = SubUnlock) = (mutex c = Some g)"
      using assms(1) by blast
    show "(callers c' ! g = SubAppend \<or> callers c' ! g = SubUnlock) = (mutex c' = Some g)"
      using s h g ig ih
      by (cases "callers c ! h") (auto simp: sub_step_def nth_list_update split: if_splits)
  qed
qed

section \<open>Aggregation cycles\<close>

text \<open>
  C1. If any one of the three adapter calls of a cycle returns an error, the discoverer after
  the cycle is the discoverer before it: \<open>loadTopology\<close> returns it unchanged together
  with an error, and both the first load and a tick of the loop leave the current snapshot as
  it was. Consequently, in every run from a newly constructed discoverer, the current snapshot
  is either the initial \<open>nil\<close> or the complete result of a successful aggregation over the
  registry answers of one of the run's cycles.
\<close>

theorem failed_cycle_keeps_snapshot:
  "(getTiDBComponents up = Inl e \<or> getPDComponents up = Inl e \<or> getStoreComponents up = Inl e
      \<longrightarrow> (\<exists>err. loadTopology d up = (d, Some err))
          \<and> fst (first_load up (d, lg)) = d
          \<and> (\<exists>d' lg'. loop_iter RecvTicker up (d, lg) = Some ((d', lg'), False)
                \<and> components d' = components d))
   \<and> (NewTopologyDiscoverer A E cfg = (calls, Inr dn) \<and> run acts (start_system dn) = Some s
      \<longrightarrow> components (disc s) = NilSlice
          \<or> (\<exists>up'\<in>set (cycles acts). getAllScrapeTargets up' = Inr (components (disc s))))"
proof (intro conjI impI)
  assume "getTiDBComponents up = Inl e \<or> getPDComponents up = Inl e
          \<or> getStoreComponents up = Inl e"
  then obtain err where err: "getAllScrapeTargets up = Inl err"
    using adapter_error_fails_cycle by blast
  then have l: "loadTopology d up = (d, Some err)"
    by (simp add: loadTopology_def)
  then show "\<exists>err. loadTopology d up = (d, Some err)" ..
  show "fst (first_load up (d, lg)) = d"
    using l by (simp add: fst_first_load)
  show "\<exists>d' lg'. loop_iter RecvTicker up (d, lg) = Some ((d', lg'), False)
          \<and> components d' = components d"
    using l by (simp add: components_notifySubscriber)
next
  assume "NewTopologyDiscoverer A E cfg = (calls, Inr dn) \<and> run acts (start_system dn) = Some s"
  then have "discoverer_inv (set (cycles acts)) (disc s)"
    using inv_reachable by blast
  then have "snapshot_ok (set (cycles acts)) (components (disc s))"
    by (simp add: discoverer_inv_def snapshots_def)
  then show "components (disc s) = NilSlice
      \<or> (\<exists>up'\<in>set (cycles acts). getAllScrapeTargets up' = Inr (components (disc s)))"
    by (simp add: snapshot_ok_def)
qed

theorem failed_cycle_keeps_snapshot_witness:
  "getPDComponents pd_error_upstream = Inl (Errorf ''pd unreachable'')
   \<and> loadTopology (example_discoverer\<lparr>components := scenario_snapshot\<rparr>) pd_error_upstream =
       (example_discoverer\<lparr>components := scenario_snapshot\<rparr>, Some (Errorf ''pd unreachable''))
   \<and> snd (NewTopologyDiscoverer (\<lambda>c. Inr ()) (\<lambda>c. Inr ()) example_config) =
       Inr example_discoverer
   \<and> map_option (\<lambda>s. components (disc s))
       (run [ActStart, ActFirstLoad scenario_upstream, ActSelect RecvTicker pd_error_upstream]
          (start_system example_discoverer)) = Some scenario_snapshot
   \<and> getAllScrapeTargets scenario_upstream = Inr scenario_snapshot"
  using failed_cycle_keeps_snapshot
    [where up = pd_error_upstream and e = "Errorf ''pd unreachable''"
       and d = "example_discoverer\<lparr>components := scenario_snapshot\<rparr>" and lg = "[]"
       and A = "\<lambda>c. Inr ()" and E = "\<lambda>c. Inr ()" and cfg = example_config
       and dn = example_discoverer
       and calls = "fst (NewTopologyDiscoverer (\<lambda>c. Inr ()) (\<lambda>c. Inr ()) example_config)"
       and acts = "[ActStart, ActFirstLoad scenario_upstream,
                    ActSelect RecvTicker pd_error_upstream]"
       and s = "the (run [ActStart, ActFirstLoad scenario_upstream,
                          ActSelect RecvTicker pd_error_upstream]
                       (start_system example_discoverer))"]
  by (simp add: getAllScrapeTargets_registries getPDComponents_eq pd_error_upstream_def
      scenario_upstream_def scenario_snapshot_def example_discoverer_def example_config_def
      NewTopologyDiscoverer_def loadTopology_def start_system_def first_load_def
      notifySubscriber_def)

text \<open>
  C2. When all three adapters succeed, the snapshot of the cycle is the concatenation, in
  this order, of the TiDB adapter's records in its order, the PD adapter's records, the
  records of the TiKV stores that are up and the records of the TiFlash stores that are up;
  \<open>loadTopology\<close> stores exactly that sequence.
\<close>

theorem snapshot_order:
  assumes "getTiDBComponents up = Inr a" and "getPDComponents up = Inr b"
    and "GetStoreInstances up = Inr (kvs, fls)"
  shows "getAllScrapeTargets up =
           Inr (Slice (elems a @ elems b @ map (store_record ComponentTiKV) (store_up kvs)
                       @ map (store_record ComponentTiFlash) (store_up fls)))
       \<and> loadTopology d up =
           (d\<lparr>components :=
                 Slice (elems a @ elems b @ map (store_record ComponentTiKV) (store_up kvs)
                        @ map (store_record ComponentTiFlash) (store_up fls))\<rparr>, None)"
  using assms
  by (simp add: loadTopology_def getAllScrapeTargets_eq getStoreComponents_eq ComponentTiKV_def
      ComponentTiFlash_def)

theorem snapshot_order_witness:
  "getTiDBComponents degraded_upstream =
     Inr (Slice [\<lparr>Name = ''tidb'', IP = ''10.0.0.1'', Port = 4000, StatusPort = 10080\<rparr>])
   \<and> getPDComponents degraded_upstream =
     Inr (Slice [\<lparr>Name = ''pd'', IP = ''10.0.0.2'', Port = 2379, StatusPort = 2379\<rparr>])
   \<and> loadTopology example_discoverer degraded_upstream =
       (example_discoverer\<lparr>components := scenario_snapshot\<rparr>, None)"
  using snapshot_order
    [where up = degraded_upstream and d = example_discoverer
       and a = "Slice [\<lparr>Name = ''tidb'', IP = ''10.0.0.1'', Port = 4000, StatusPort = 10080\<rparr>]"
       and b = "Slice [\<lparr>Name = ''pd'', IP = ''10.0.0.2'', Port = 2379, StatusPort = 2379\<rparr>]"
       and kvs = "[\<lparr>store_IP = ''10.0.0.3'', store_Port = 20160, store_StatusPort = 20180,
                    store_Status = ComponentStatusUp\<rparr>,
                   \<lparr>store_IP = ''10.0.0.4'', store_Port = 20160, store_StatusPort = 20180,
                    store_Status = ComponentStatusTombstone\<rparr>]"
       and fls = "[\<lparr>store_IP = ''10.0.0.5'', store_Port = 3930, store_StatusPort = 20292,
                    store_Status = ComponentStatusOffline\<rparr>]"]
  by (simp add: getTiDBComponents_eq getPDComponents_eq degraded_upstream_def
      scenario_snapshot_def ComponentTiKV_def ComponentTiFlash_def)

text \<open>
  C5. Instances whose status is not up leave no trace: the outcome of an aggregation is the
  outcome over the registry answers with those instances removed (so they cause neither a
  record nor an error), every record of a computed snapshot is the record of an instance
  reported up, and in every run every record of every snapshot held by the discoverer or
  waiting in a mailbox is the record of an instance that one of the run's cycles saw up.
\<close>

theorem down_instances_excluded:
  "getAllScrapeTargets up = getAllScrapeTargets (without_down up)
   \<and> (getAllScrapeTargets up = Inr sn \<and> c \<in> set (elems sn) \<longrightarrow> reported_up up c)
   \<and> (NewTopologyDiscoverer A E cfg = (calls, Inr dn) \<and> run acts (start_system dn) = Some s
        \<and> sn' \<in> set (snapshots (disc s)) \<and> c' \<in> set (elems sn')
      \<longrightarrow> (\<exists>up'\<in>set (cycles acts). reported_up up' c'))"
proof (intro conjI impI)
  show "getAllScrapeTargets up = getAllScrapeTargets (without_down up)"
    by (simp add: getAllScrapeTargets_without_down)
  show "reported_up up c" if "getAllScrapeTargets up = Inr sn \<and> c \<in> set (elems sn)"
    using that getAllScrapeTargets_reported_up by blast
next
  assume h: "NewTopologyDiscoverer A E cfg = (calls, Inr dn)
      \<and> run acts (start_system dn) = Some s
      \<and> sn' \<in> set (snapshots (disc s)) \<and> c' \<in> set (elems sn')"
  then have "discoverer_inv (set (cycles acts)) (disc s)"
    using inv_reachable by blast
  then have "snapshot_ok (set (cycles acts)) sn'"
    using h by (simp add: discoverer_inv_def)
  moreover have "sn' \<noteq> NilSlice"
    using h by auto
  ultimately obtain up' where "up' \<in> set (cycles acts)" "getAllScrapeTargets up' = Inr sn'"
    by (auto simp: snapshot_ok_def)
  then show "\<exists>up'\<in>set (cycles acts). reported_up up' c'"
    using h getAllScrapeTargets_reported_up by blast
qed

theorem down_instances_excluded_witness:
  "getAllScrapeTargets degraded_upstream = Inr scenario_snapshot
   \<and> without_down degraded_upstream = scenario_upstream
   \<and> \<lparr>Name = ''tidb'', IP = ''10.0.0.9'', Port = 4000, StatusPort = 10080\<rparr>
        \<notin> set (elems scenario_snapshot)
   \<and> snd (NewTopologyDiscoverer (\<lambda>c. Inr ()) (\<lambda>c. Inr ()) example_config) =
       Inr example_discoverer
   \<and> map_option (\<lambda>s. snapshots (disc s))
       (run [ActSubscribe, ActStart, ActFirstLoad degraded_upstream,
             ActSelect RecvTicker degraded_upstream] (start_system example_discoverer)) =
       Some [scenario_snapshot, scenario_snapshot]
   \<and> reported_up degraded_upstream
       \<lparr>Name = ''tikv'', IP = ''10.0.0.3'', Port = 20160, StatusPort = 20180\<rparr>"
  using down_instances_excluded
    [where up = degraded_upstream and sn = scenario_snapshot
       and c = "\<lparr>Name = ''tikv'', IP = ''10.0.0.3'', Port = 20160, StatusPort = 20180\<rparr>"
       and A = "\<lambda>c. Inr ()" and E = "\<lambda>c. Inr ()" and cfg = example_config
       and dn = example_discoverer
       and calls = "fst (NewTopologyDiscoverer (\<lambda>c. Inr ()) (\<lambda>c. Inr ()) example_config)"
       and acts = "[ActSubscribe, ActStart, ActFirstLoad degraded_upstream,
                    ActSelect RecvTicker degraded_upstream]"
       and s = "the (run [ActSubscribe, ActStart, ActFirstLoad degraded_upstream,
                          ActSelect RecvTicker degraded_upstream]
                       (start_system example_discoverer))"
       and sn' = scenario_snapshot
       and c' = "\<lparr>Name = ''tikv'', IP = ''10.0.0.3'', Port = 20160, StatusPort = 20180\<rparr>"]
  by (simp add: getAllScrapeTargets_registries degraded_upstream_def scenario_upstream_def
      scenario_snapshot_def without_down_def example_discoverer_def example_config_def
      NewTopologyDiscoverer_def loadTopology_def start_system_def first_load_def
      notifySubscriber_def Subscribe_def make_chan_def try_send_def snapshots_def mailboxes_def
      reported_up_def len_def)

text \<open>
  C8. For the PD instances that are up, the adapter builds records named \<open>pd\<close> whose status
  port is the instance's port; the TiDB adapter and the store adapter keep each instance's
  own status port.
\<close>

theorem pd_status_port_is_port:
  "(GetPDInstances up = Inr ps
      \<longrightarrow> getPDComponents up =
            Inr (Slice (map (\<lambda>i. \<lparr>Name = ComponentPD, IP = pd_IP i, Port = pd_Port i,
                                    StatusPort = pd_Port i\<rparr>) (pd_up ps))))
   \<and> (getPDComponents up = Inr cs
      \<longrightarrow> (\<forall>c\<in>set (elems cs). Name c = ComponentPD \<and> StatusPort c = Port c))
   \<and> (GetTiDBInstances up = Inr ts
      \<longrightarrow> getTiDBComponents up =
            Inr (Slice (map (\<lambda>i. \<lparr>Name = ComponentTiDB, IP = tidb_IP i, Port = tidb_Port i,
                                    StatusPort = tidb_StatusPort i\<rparr>) (tidb_up ts))))
   \<and> (GetStoreInstances up = Inr (kvs, fls)
      \<longrightarrow> getStoreComponents up =
            Inr (Slice (map (\<lambda>i. \<lparr>Name = ComponentTiKV, IP = store_IP i, Port = store_Port i,
                                    StatusPort = store_StatusPort i\<rparr>) (store_up kvs)
                        @ map (\<lambda>i. \<lparr>Name = ComponentTiFlash, IP = store_IP i,
                                      Port = store_Port i, StatusPort = store_StatusPort i\<rparr>)
                            (store_up fls))))"
proof (intro conjI impI)
  show "\<forall>c\<in>set (elems cs). Name c = ComponentPD \<and> StatusPort c = Port c"
    if "getPDComponents up = Inr cs"
    using that by (auto simp: getPDComponents_eq ComponentPD_def split: sum.splits)
qed (simp_all add: getPDComponents_eq getTiDBComponents_eq getStoreComponents_eq
    ComponentPD_def ComponentTiDB_def ComponentTiKV_def ComponentTiFlash_def)

theorem pd_status_port_is_port_witness:
  "GetPDInstances scenario_upstream =
     Inr [\<lparr>pd_IP = ''10.0.0.2'', pd_Port = 2379, pd_Status = ComponentStatusUp\<rparr>]
   \<and> getPDComponents scenario_upstream =
     Inr (Slice [\<lparr>Name = ''pd'', IP = ''10.0.0.2'', Port = 2379, StatusPort = 2379\<rparr>])
   \<and> getTiDBComponents scenario_upstream =
     Inr (Slice [\<lparr>Name = ''tidb'', IP = ''10.0.0.1'', Port = 4000, StatusPort = 10080\<rparr>])
   \<and> getStoreComponents scenario_upstream =
     Inr (Slice [\<lparr>Name = ''tikv'', IP = ''10.0.0.3'', Port = 20160, StatusPort = 20180\<rparr>])"
  using pd_status_port_is_port
    [where up = scenario_upstream
       and ps = "[\<lparr>pd_IP = ''10.0.0.2'', pd_Port = 2379, pd_Status = ComponentStatusUp\<rparr>]"
       and cs = "Slice [\<lparr>Name = ''pd'', IP = ''10.0.0.2'', Port = 2379, StatusPort = 2379\<rparr>]"
       and ts = "[\<lparr>tidb_IP = ''10.0.0.1'', tidb_Port = 4000, tidb_StatusPort = 10080,
                   tidb_Status = ComponentStatusUp\<rparr>]"
       and kvs = "[\<lparr>store_IP = ''10.0.0.3'', store_Port = 20160, store_StatusPort = 20180,
                    store_Status = ComponentStatusUp\<rparr>]"
       and fls = "[]"]
  by (simp add: scenario_upstream_def ComponentPD_def ComponentTiDB_def ComponentTiKV_def
      ComponentTiFlash_def)

text \<open>
  C10. When the three registry calls succeed and no instance is up, the cycle succeeds and
  replaces the current snapshot, whatever it was, by the empty slice, which is not \<open>nil\<close>
  and has length zero. The aggregation and the whole tick of the loop (snapshot, mailboxes
  and log) are then the same as for a cluster with no instance at all.
\<close>

theorem all_down_gives_empty_snapshot:
  assumes "GetTiDBInstances up = Inr ts" and "GetPDInstances up = Inr ps"
    and "GetStoreInstances up = Inr (kvs, fls)"
    and "\<forall>i\<in>set ts. tidb_Status i \<noteq> ComponentStatusUp"
    and "\<forall>i\<in>set ps. pd_Status i \<noteq> ComponentStatusUp"
    and "\<forall>i\<in>set kvs. store_Status i \<noteq> ComponentStatusUp"
    and "\<forall>i\<in>set fls. store_Status i \<noteq> ComponentStatusUp"
  shows "loadTopology d up = (d\<lparr>components := Slice []\<rparr>, None)
       \<and> components (fst (loadTopology d up)) \<noteq> NilSlice
       \<and> len (components (fst (loadTopology d up))) = 0
       \<and> getAllScrapeTargets up = getAllScrapeTargets empty_cluster
       \<and> loop_iter RecvTicker up (d, lg) = loop_iter RecvTicker empty_cluster (d, lg)"
proof -
  have "tidb_up ts = []" "pd_up ps = []" "store_up kvs = []" "store_up fls = []"
    using assms(4-7) by simp_all
  then have g: "getAllScrapeTargets up = Inr (Slice [])"
    using assms(1-3) by (simp add: getAllScrapeTargets_registries)
  have e: "getAllScrapeTargets empty_cluster = Inr (Slice [])"
    by (simp add: getAllScrapeTargets_registries empty_cluster_def)
  have "loadTopology d up = loadTopology d empty_cluster"
    using g e by (simp add: loadTopology_def)
  then show ?thesis
    using g e by (simp add: loadTopology_def len_def)
qed

theorem all_down_gives_empty_snapshot_witness:
  "GetPDInstances all_down_upstream =
     Inr [\<lparr>pd_IP = ''10.0.0.2'', pd_Port = 2379, pd_Status = ComponentStatusUnreachable\<rparr>]
   \<and> components (example_discoverer\<lparr>components := scenario_snapshot\<rparr>) \<noteq> Slice []
   \<and> loadTopology (example_discoverer\<lparr>components := scenario_snapshot\<rparr>) all_down_upstream =
       (example_discoverer\<lparr>components := Slice []\<rparr>, None)
   \<and> getAllScrapeTargets all_down_upstream = Inr (Slice [])
   \<and> getAllScrapeTargets empty_cluster = Inr (Slice [])"
  using all_down_gives_empty_snapshot
    [where up = all_down_upstream
       and d = "example_discoverer\<lparr>components := scenario_snapshot\<rparr>"
       and ts = "[\<lparr>tidb_IP = ''10.0.0.1'', tidb_Port = 4000, tidb_StatusPort = 10080,
                   tidb_Status = ComponentStatusDown\<rparr>]"
       and ps = "[\<lparr>pd_IP = ''10.0.0.2'', pd_Port = 2379,
                   pd_Status = ComponentStatusUnreachable\<rparr>]"
       and kvs = "[\<lparr>store_IP = ''10.0.0.3'', store_Port = 20160, store_StatusPort = 20180,
                    store_Status = ComponentStatusTombstone\<rparr>]"
       and fls = "[\<lparr>store_IP = ''10.0.0.5'', store_Port = 3930, store_StatusPort = 20292,
                    store_Status = ComponentStatusOffline\<rparr>]"
       and lg = "[]"]
  by (simp add: all_down_upstream_def example_discoverer_def scenario_snapshot_def
      loadTopology_def getAllScrapeTargets_registries empty_cluster_def)

section \<open>Construction\<close>

text \<open>
  C7. \<open>NewTopologyDiscoverer\<close> succeeds whenever the endpoint list is not empty and both
  client constructors succeed on the settings built from the configuration. For an empty
  endpoint list it fails with its own error without calling any client constructor. It fails
  with the constructor's error when the HTTP client cannot be built, and when the etcd client
  cannot be built.
\<close>

theorem construction_outcomes:
  "(PD_Endpoints cfg = endpoint # rest
      \<and> A \<lparr>api_Endpoint = GetHTTPScheme cfg @ ''://'' @ endpoint,
            api_TLS = GetTLSConfig cfg\<rparr> = Inr p
      \<and> E \<lparr>etcd_Endpoints = PD_Endpoints cfg, etcd_TLS = GetTLSConfig cfg\<rparr> = Inr c
      \<longrightarrow> snd (NewTopologyDiscoverer A E cfg) =
            Inr \<lparr>pdCli = p, etcdCli = c, subscriber = NilSlice, components = NilSlice,
                 notifyCh = make_chan 1, closed = make_chan 0\<rparr>)
   \<and> (PD_Endpoints cfg = []
      \<longrightarrow> NewTopologyDiscoverer A E cfg =
            ([], Inl (Errorf
               ''unexpected empty pd endpoints, please specify at least one pd endpoint'')))
   \<and> (PD_Endpoints cfg = endpoint # rest
      \<and> A \<lparr>api_Endpoint = GetHTTPScheme cfg @ ''://'' @ endpoint,
            api_TLS = GetTLSConfig cfg\<rparr> = Inl err
      \<longrightarrow> snd (NewTopologyDiscoverer A E cfg) = Inl err)
   \<and> (PD_Endpoints cfg = endpoint # rest
      \<and> A \<lparr>api_Endpoint = GetHTTPScheme cfg @ ''://'' @ endpoint,
            api_TLS = GetTLSConfig cfg\<rparr> = Inr p
      \<and> E \<lparr>etcd_Endpoints = PD_Endpoints cfg, etcd_TLS = GetTLSConfig cfg\<rparr> = Inl err
      \<longrightarrow> snd (NewTopologyDiscoverer A E cfg) = Inl err)"
  by (auto simp: NewTopologyDiscoverer_def Let_def)

theorem construction_outcomes_witness:
  "snd (NewTopologyDiscoverer (\<lambda>c. Inr ()) (\<lambda>c. Inr ()) example_config) = Inr example_discoverer
   \<and> NewTopologyDiscoverer (\<lambda>c. Inr ()) (\<lambda>c. Inr ()) (example_config\<lparr>PD_Endpoints := []\<rparr>) =
       ([], Inl (Errorf
          ''unexpected empty pd endpoints, please specify at least one pd endpoint''))
   \<and> snd (NewTopologyDiscoverer (\<lambda>c. Inl (Errorf ''bad address'')) (\<lambda>c. Inr ())
            example_config) = (Inl (Errorf ''bad address'') :: error + (unit, unit) TopologyDiscoverer)
   \<and> snd (NewTopologyDiscoverer (\<lambda>c. Inr ()) (\<lambda>c. Inl (Errorf ''bad certificate''))
            example_config) = (Inl (Errorf ''bad certificate'') :: error + (unit, unit) TopologyDiscoverer)"
  using
    construction_outcomes
      [where cfg = example_config and A = "\<lambda>c. Inr ()" and E = "\<lambda>c. Inr ()"
         and endpoint = "''127.0.0.1:2379''" and rest = "[]" and p = "()" and c = "()"]
    construction_outcomes
      [where cfg = "example_config\<lparr>PD_Endpoints := []\<rparr>" and A = "\<lambda>c. Inr ()"
         and E = "\<lambda>c. Inr ()"]
    construction_outcomes
      [where cfg = example_config and A = "\<lambda>c. Inl (Errorf ''bad address'')"
         and E = "\<lambda>c. Inr ()" and endpoint = "''127.0.0.1:2379''" and rest = "[]"
         and err = "Errorf ''bad address''"]
    construction_outcomes
      [where cfg = example_config and A = "\<lambda>c. Inr ()"
         and E = "\<lambda>c. Inl (Errorf ''bad certificate'')" and endpoint = "''127.0.0.1:2379''"
         and rest = "[]" and p = "()" and err = "Errorf ''bad certificate''"]
  by (simp add: example_config_def example_discoverer_def)

section \<open>Subscribers and the control loop\<close>

text \<open>
  C6. In every run from a newly constructed discoverer every mailbox has capacity one and
  holds at most one snapshot. Notifying keeps the mailboxes in place; a mailbox that is
  empty receives the current snapshot, and a mailbox that holds an unread snapshot is left
  exactly as it is (the publish is dropped). Whatever the mailboxes hold, a tick of the loop,
  notification included, completes. \<open>Subscribe\<close> always returns, adding one empty mailbox
  of capacity one whose handle it returns.
\<close>

theorem mailbox_holds_at_most_one:
  "(NewTopologyDiscoverer A E cfg = (calls, Inr dn) \<and> run acts (start_system dn) = Some s
      \<longrightarrow> (\<forall>ch\<in>set (mailboxes (disc s)). chan_cap ch = 1 \<and> length (chan_buf ch) \<le> 1)
          \<and> length (mailboxes (notifySubscriber (disc s))) = length (mailboxes (disc s))
          \<and> (\<forall>i<length (mailboxes (disc s)).
                (chan_buf (mailboxes (disc s) ! i) = []
                   \<longrightarrow> chan_buf (mailboxes (notifySubscriber (disc s)) ! i) =
                         [components (disc s)])
                \<and> (chan_buf (mailboxes (disc s) ! i) \<noteq> []
                   \<longrightarrow> mailboxes (notifySubscriber (disc s)) ! i = mailboxes (disc s) ! i))
          \<and> (phase_of s = Selecting \<longrightarrow> step (ActSelect RecvTicker up) s \<noteq> None))
   \<and> mailboxes (snd (Subscribe d)) = mailboxes d @ [make_chan 1]
   \<and> fst (Subscribe d) = length (mailboxes d)
   \<and> chan_cap (make_chan 1 :: Component slice chan) = 1"
proof (intro conjI impI)
  assume h: "NewTopologyDiscoverer A E cfg = (calls, Inr dn)
      \<and> run acts (start_system dn) = Some s"
  then have "discoverer_inv (set (cycles acts)) (disc s)"
    using inv_reachable by blast
  then have ok: "\<forall>ch\<in>set (mailboxes (disc s)). mailbox_ok ch"
    by (simp add: discoverer_inv_def)
  then show "\<forall>ch\<in>set (mailboxes (disc s)). chan_cap ch = 1 \<and> length (chan_buf ch) \<le> 1"
    by (simp add: mailbox_ok_def)
  show "length (mailboxes (notifySubscriber (disc s))) = length (mailboxes (disc s))"
    by (simp add: mailboxes_notifySubscriber length_notify_range)
  show "\<forall>i<length (mailboxes (disc s)).
          (chan_buf (mailboxes (disc s) ! i) = []
             \<longrightarrow> chan_buf (mailboxes (notifySubscriber (disc s)) ! i) = [components (disc s)])
          \<and> (chan_buf (mailboxes (disc s) ! i) \<noteq> []
             \<longrightarrow> mailboxes (notifySubscriber (disc s)) ! i = mailboxes (disc s) ! i)"
  proof (intro allI impI)
    fix i
    assume i: "i < length (mailboxes (disc s))"
    then have "mailbox_ok (mailboxes (disc s) ! i)"
      using ok by simp
    then show "(chan_buf (mailboxes (disc s) ! i) = []
             \<longrightarrow> chan_buf (mailboxes (notifySubscriber (disc s)) ! i) = [components (disc s)])
          \<and> (chan_buf (mailboxes (disc s) ! i) \<noteq> []
             \<longrightarrow> mailboxes (notifySubscriber (disc s)) ! i = mailboxes (disc s) ! i)"
      using i
      by (simp add: mailboxes_notifySubscriber nth_notify_range try_send_empty try_send_full)
  qed
  show "step (ActSelect RecvTicker up) s \<noteq> None" if "phase_of s = Selecting"
    using that loop_iter_ticker [of up "disc s" "logs s"] by auto
next
  show "mailboxes (snd (Subscribe d)) = mailboxes d @ [make_chan 1]"
    by (simp add: Subscribe_def Let_def mailboxes_def elems_append_slice)
  show "fst (Subscribe d) = length (mailboxes d)"
    by (simp add: Subscribe_def Let_def mailboxes_def len_def)
  show "chan_cap (make_chan 1 :: Component slice chan) = 1"
    by (simp add: make_chan_def)
qed

theorem mailbox_holds_at_most_one_witness:
  "snd (NewTopologyDiscoverer (\<lambda>c. Inr ()) (\<lambda>c. Inr ()) example_config) = Inr example_discoverer
   \<and> map_option (\<lambda>s. (mailboxes (disc s), phase_of s))
       (run [ActSubscribe, ActStart, ActFirstLoad scenario_upstream,
             ActSelect RecvNotifyCh scenario_upstream, ActSubscribe]
          (start_system example_discoverer)) =
       Some ([\<lparr>chan_cap = 1, chan_buf = [scenario_snapshot], chan_closed = False\<rparr>,
              \<lparr>chan_cap = 1, chan_buf = [], chan_closed = False\<rparr>], Selecting)
   \<and> map_option (\<lambda>s. mailboxes (disc s))
       (run [ActSubscribe, ActStart, ActFirstLoad scenario_upstream,
             ActSelect RecvNotifyCh scenario_upstream, ActSubscribe,
             ActSelect RecvTicker all_down_upstream]
          (start_system example_discoverer)) =
       Some [\<lparr>chan_cap = 1, chan_buf = [scenario_snapshot], chan_closed = False\<rparr>,
             \<lparr>chan_cap = 1, chan_buf = [Slice []], chan_closed = False\<rparr>]"
  using mailbox_holds_at_most_one
    [where A = "\<lambda>c. Inr ()" and E = "\<lambda>c. Inr ()" and cfg = example_config
       and dn = example_discoverer
       and calls = "fst (NewTopologyDiscoverer (\<lambda>c. Inr ()) (\<lambda>c. Inr ()) example_config)"
       and acts = "[ActSubscribe, ActStart, ActFirstLoad scenario_upstream,
                    ActSelect RecvNotifyCh scenario_upstream, ActSubscribe]"
       and s = "the (run [ActSubscribe, ActStart, ActFirstLoad scenario_upstream,
                          ActSelect RecvNotifyCh scenario_upstream, ActSubscribe]
                       (start_system example_discoverer))"
       and up = all_down_upstream and d = example_discoverer]
  by (simp add: getAllScrapeTargets_registries scenario_upstream_def scenario_snapshot_def
      all_down_upstream_def example_discoverer_def example_config_def
      NewTopologyDiscoverer_def loadTopology_def start_system_def first_load_def
      notifySubscriber_def Subscribe_def make_chan_def try_send_def mailboxes_def
      can_recv_def recv_def len_def)

text \<open>
  As C3 is worded, the refresh signal sent by \<open>Subscribe\<close> would make the loop aggregate
  before it notifies. It does not: with the registries ready to report the scenario's
  cluster, the pass of the loop that takes the signal leaves the current snapshot \<open>nil\<close> and
  hands \<open>nil\<close> to the new subscriber, where an aggregation would have produced the
  scenario's snapshot.
\<close>

theorem refresh_signal_counterexample:
  "loop_iter RecvNotifyCh scenario_upstream (snd (Subscribe example_discoverer), []) =
     Some ((example_discoverer
              \<lparr>subscriber := Slice [\<lparr>chan_cap = 1, chan_buf = [NilSlice], chan_closed = False\<rparr>]\<rparr>,
            []), False)
   \<and> loop_iter RecvNotifyCh scenario_upstream (snd (Subscribe example_discoverer), []) \<noteq>
     Some ((notifySubscriber
              (fst (loadTopology
                      ((snd (Subscribe example_discoverer))
                         \<lparr>notifyCh := recv (notifyCh (snd (Subscribe example_discoverer)))\<rparr>)
                      scenario_upstream)),
            []), False)
   \<and> components (fst (loadTopology (snd (Subscribe example_discoverer)) scenario_upstream)) =
       scenario_snapshot
   \<and> scenario_snapshot \<noteq> NilSlice"
  by (simp add: getAllScrapeTargets_registries scenario_upstream_def scenario_snapshot_def
      example_discoverer_def loadTopology_def notifySubscriber_def Subscribe_def make_chan_def
      try_send_def can_recv_def recv_def len_def)

text \<open>
  C3 (amended). \<open>Subscribe\<close> signals the loop without blocking: afterwards exactly one
  signal is pending, and a signal that was already pending is kept as it is (the new one is
  dropped). The loop can then take the signal; the pass that takes it only notifies: it runs
  no aggregation (its outcome does not depend on the registries), leaves the current snapshot
  and the log unchanged, consumes the signal, does not end the loop, and the mailbox just
  registered now holds the current snapshot, while every mailbox registered before got the
  non-blocking send of the current snapshot.
\<close>

theorem refresh_signal_only_notifies:
  "mailbox_ok (notifyCh d)
     \<longrightarrow> chan_buf (notifyCh (snd (Subscribe d))) = [()]
         \<and> (chan_buf (notifyCh d) \<noteq> [] \<longrightarrow> notifyCh (snd (Subscribe d)) = notifyCh d)
         \<and> (\<exists>d'. loop_iter RecvNotifyCh up (snd (Subscribe d), lg) = Some ((d', lg), False)
               \<and> loop_iter RecvNotifyCh up' (snd (Subscribe d), lg) = Some ((d', lg), False)
               \<and> components d' = components d
               \<and> chan_buf (notifyCh d') = []
               \<and> length (mailboxes d') = Suc (length (mailboxes d))
               \<and> chan_buf (mailboxes d' ! fst (Subscribe d)) = [components d]
               \<and> (\<forall>i<length (mailboxes d).
                     mailboxes d' ! i = try_send (mailboxes d ! i) (components d)))"
proof
  assume ok: "mailbox_ok (notifyCh d)"
  let ?d1 = "snd (Subscribe d)"
  let ?d2 = "?d1\<lparr>notifyCh := recv (notifyCh ?d1)\<rparr>"
  have n: "notifyCh ?d1 = try_send (notifyCh d) ()"
    by (simp add: Subscribe_def Let_def)
  have b: "chan_buf (notifyCh ?d1) = [()]"
    using ok by (cases "chan_buf (notifyCh d)") (auto simp: n mailbox_ok_def try_send_def)
  have m: "mailboxes ?d2 = mailboxes d @ [make_chan 1]"
    by (simp add: Subscribe_def Let_def mailboxes_def elems_append_slice)
  have c: "components ?d2 = components d"
    by (simp add: Subscribe_def Let_def)
  have h: "fst (Subscribe d) = length (mailboxes d)"
    by (simp add: Subscribe_def Let_def mailboxes_def len_def)
  have l: "loop_iter RecvNotifyCh u (?d1, lg) = Some ((notifySubscriber ?d2, lg), False)" for u
    using b by (simp add: can_recv_def)
  have "chan_buf (mailboxes (notifySubscriber ?d2) ! fst (Subscribe d)) = [components d]"
    by (simp add: mailboxes_notifySubscriber nth_notify_range m c h make_chan_def try_send_def)
  moreover have "\<forall>i<length (mailboxes d).
      mailboxes (notifySubscriber ?d2) ! i = try_send (mailboxes d ! i) (components d)"
    by (simp add: mailboxes_notifySubscriber nth_notify_range m c nth_append)
  moreover have "chan_buf (notifyCh (notifySubscriber ?d2)) = []"
    using b by (simp add: notifyCh_notifySubscriber recv_def)
  moreover have "length (mailboxes (notifySubscriber ?d2)) = Suc (length (mailboxes d))"
    by (simp add: mailboxes_notifySubscriber length_notify_range m)
  moreover have "components (notifySubscriber ?d2) = components d"
    by (simp add: components_notifySubscriber c)
  moreover have "chan_buf (notifyCh d) \<noteq> [] \<longrightarrow> notifyCh ?d1 = notifyCh d"
    using ok by (simp add: n try_send_full)
  ultimately show "chan_buf (notifyCh ?d1) = [()]
      \<and> (chan_buf (notifyCh d) \<noteq> [] \<longrightarrow> notifyCh ?d1 = notifyCh d)
      \<and> (\<exists>d'. loop_iter RecvNotifyCh up (?d1, lg) = Some ((d', lg), False)
            \<and> loop_iter RecvNotifyCh up' (?d1, lg) = Some ((d', lg), False)
            \<and> components d' = components d
            \<and> chan_buf (notifyCh d') = []
            \<and> length (mailboxes d') = Suc (length (mailboxes d))
            \<and> chan_buf (mailboxes d' ! fst (Subscribe d)) = [components d]
            \<and> (\<forall>i<length (mailboxes d).
                  mailboxes d' ! i = try_send (mailboxes d ! i) (components d)))"
    using b l by blast
qed

theorem refresh_signal_only_notifies_witness:
  "mailbox_ok (notifyCh (snd (Subscribe (example_discoverer\<lparr>components := scenario_snapshot\<rparr>))))
   \<and> chan_buf (notifyCh (snd (Subscribe
        (example_discoverer\<lparr>components := scenario_snapshot\<rparr>)))) = [()]
   \<and> notifyCh (snd (Subscribe (snd (Subscribe
        (example_discoverer\<lparr>components := scenario_snapshot\<rparr>))))) =
       notifyCh (snd (Subscribe (example_discoverer\<lparr>components := scenario_snapshot\<rparr>)))
   \<and> map_option (\<lambda>r. (components (fst (fst r)), mailboxes (fst (fst r))))
       (loop_iter RecvNotifyCh all_down_upstream
          (snd (Subscribe (snd (Subscribe
             (example_discoverer\<lparr>components := scenario_snapshot\<rparr>)))), [])) =
       Some (scenario_snapshot,
             [\<lparr>chan_cap = 1, chan_buf = [scenario_snapshot], chan_closed = False\<rparr>,
              \<lparr>chan_cap = 1, chan_buf = [scenario_snapshot], chan_closed = False\<rparr>])"
  using refresh_signal_only_notifies
    [where d = "snd (Subscribe (example_discoverer\<lparr>components := scenario_snapshot\<rparr>))"
       and up = all_down_upstream and up' = scenario_upstream and lg = "[]"]
  by (simp add: example_discoverer_def scenario_snapshot_def notifySubscriber_def
      Subscribe_def make_chan_def try_send_def mailboxes_def mailbox_ok_def can_recv_def
      recv_def len_def)

text \<open>
  As C4 is worded, the first aggregation of the loop would be followed by a notification.
  It is not: with a subscriber registered before the loop starts, the first load leaves the
  mailbox empty (a notification would have filled it with the fresh snapshot), and when the
  discoverer is closed next the loop returns without the mailbox ever having been written.
\<close>

theorem first_load_counterexample:
  "map_option (\<lambda>s. (components (disc s), mailboxes (disc s), phase_of s))
     (run [ActSubscribe, ActStart, ActFirstLoad scenario_upstream]
        (start_system example_discoverer)) =
     Some (scenario_snapshot,
           [\<lparr>chan_cap = 1, chan_buf = [], chan_closed = False\<rparr>], Selecting)
   \<and> mailboxes (notifySubscriber
        (fst (first_load scenario_upstream (snd (Subscribe example_discoverer), [])))) =
       [\<lparr>chan_cap = 1, chan_buf = [scenario_snapshot], chan_closed = False\<rparr>]
   \<and> map_option (\<lambda>s. (components (disc s), mailboxes (disc s), phase_of s))
       (run [ActSubscribe, ActStart, ActFirstLoad scenario_upstream, ActClose,
             ActSelect RecvClosed scenario_upstream]
          (start_system example_discoverer)) =
       Some (scenario_snapshot,
             [\<lparr>chan_cap = 1, chan_buf = [], chan_closed = False\<rparr>], Returned)"
  by (simp add: getAllScrapeTargets_registries scenario_upstream_def scenario_snapshot_def
      example_discoverer_def loadTopology_def start_system_def first_load_def
      notifySubscriber_def Subscribe_def Close_def make_chan_def try_send_def mailboxes_def
      can_recv_def recv_def len_def)

text \<open>
  C4 (amended). Every pass of the loop that takes the ticker runs an aggregation and then
  notifies, whether the aggregation succeeded or failed: the snapshot published is the new
  one after a success and the retained one after a failure, and every mailbox gets the
  non-blocking send of it, so after a failed cycle every empty mailbox of capacity one holds
  the retained snapshot. The first load, before the loop's \<open>select\<close>, touches no mailbox.
\<close>

theorem tick_cycle_notifies:
  "(\<exists>d' lg'. loop_iter RecvTicker up (d, lg) = Some ((d', lg'), False)
       \<and> components d' =
           (case getAllScrapeTargets up of Inl err \<Rightarrow> components d | Inr cs \<Rightarrow> cs)
       \<and> length (mailboxes d') = length (mailboxes d)
       \<and> (\<forall>i<length (mailboxes d).
             mailboxes d' ! i = try_send (mailboxes d ! i) (components d')
             \<and> (getAllScrapeTargets up = Inl e \<and> chan_cap (mailboxes d ! i) = 1
                  \<and> chan_buf (mailboxes d ! i) = []
                \<longrightarrow> chan_buf (mailboxes d' ! i) = [components d])))
   \<and> mailboxes (fst (first_load up (d, lg))) = mailboxes d"
proof
  obtain lg' where l: "loop_iter RecvTicker up (d, lg) =
      Some ((notifySubscriber (fst (loadTopology d up)), lg'), False)"
    using loop_iter_ticker by blast
  let ?d' = "notifySubscriber (fst (loadTopology d up))"
  have c: "components ?d' =
      (case getAllScrapeTargets up of Inl err \<Rightarrow> components d | Inr cs \<Rightarrow> cs)"
    by (simp add: components_notifySubscriber components_loadTopology)
  have n: "length (mailboxes ?d') = length (mailboxes d)"
    by (simp add: mailboxes_notifySubscriber mailboxes_loadTopology length_notify_range)
  have s: "mailboxes ?d' ! i = try_send (mailboxes d ! i) (components ?d')"
    if "i < length (mailboxes d)" for i
    using that
    by (simp add: mailboxes_notifySubscriber mailboxes_loadTopology nth_notify_range
        components_notifySubscriber)
  have f: "chan_buf (mailboxes ?d' ! i) = [components d]"
    if "i < length (mailboxes d)" and "getAllScrapeTargets up = Inl e"
      and "chan_cap (mailboxes d ! i) = 1" and "chan_buf (mailboxes d ! i) = []" for i
    using that s [of i] c by (simp add: try_send_def)
  show "\<exists>d' lg'. loop_iter RecvTicker up (d, lg) = Some ((d', lg'), False)
       \<and> components d' =
           (case getAllScrapeTargets up of Inl err \<Rightarrow> components d | Inr cs \<Rightarrow> cs)
       \<and> length (mailboxes d') = length (mailboxes d)
       \<and> (\<forall>i<length (mailboxes d).
             mailboxes d' ! i = try_send (mailboxes d ! i) (components d')
             \<and> (getAllScrapeTargets up = Inl e \<and> chan_cap (mailboxes d ! i) = 1
                  \<and> chan_buf (mailboxes d ! i) = []
                \<longrightarrow> chan_buf (mailboxes d' ! i) = [components d]))"
    using l c n s f by blast
  show "mailboxes (fst (first_load up (d, lg))) = mailboxes d"
    by (simp add: fst_first_load mailboxes_loadTopology)
qed

theorem tick_cycle_notifies_witness:
  "getAllScrapeTargets pd_error_upstream = Inl (Errorf ''pd unreachable'')
   \<and> mailboxes (snd (Subscribe (example_discoverer\<lparr>components := scenario_snapshot\<rparr>))) =
       [\<lparr>chan_cap = 1, chan_buf = [], chan_closed = False\<rparr>]
   \<and> map_option (\<lambda>r. (components (fst (fst r)), mailboxes (fst (fst r)), snd (fst r)))
       (loop_iter RecvTicker pd_error_upstream
          (snd (Subscribe (example_discoverer\<lparr>components := scenario_snapshot\<rparr>)), [])) =
       Some (scenario_snapshot,
             [\<lparr>chan_cap = 1, chan_buf = [scenario_snapshot], chan_closed = False\<rparr>],
             [(LevelError, ''load topology failed'', None, Some (Errorf ''pd unreachable''))])"
  using tick_cycle_notifies
    [where up = pd_error_upstream and e = "Errorf ''pd unreachable''" and lg = "[]"
       and d = "snd (Subscribe (example_discoverer\<lparr>components := scenario_snapshot\<rparr>))"]
  by (simp add: getAllScrapeTargets_registries pd_error_upstream_def scenario_upstream_def
      scenario_snapshot_def example_discoverer_def loadTopology_def notifySubscriber_def
      Subscribe_def make_chan_def try_send_def mailboxes_def len_def)

section \<open>Subscribing while the loop notifies\<close>

text \<open>
  C9. \<open>Subscribe\<close> is never kept waiting by the notifying loop, but the appends to the
  subscriber list are not serialised with the iteration of \<open>notifySubscriber\<close>: only the
  append is under the mutex. With one subscriber registered, a caller enters \<open>Subscribe\<close>
  and takes the mutex; the loop's \<open>range d.subscriber\<close> runs all the same, with the mutex
  held by the caller about to append. The append then runs between the \<open>range\<close> and the
  send, and the send to the first mailbox runs while the caller still holds the mutex.
\<close>

theorem range_inside_critical_section:
  "schedule [Caller 0, Notifier] racing_example =
     Some (racing_example\<lparr>mutex := Some 0, callers := [SubAppend],
                           notifier := NotifySend 0 1\<rparr>)
   \<and> schedule [Caller 0, Notifier, Caller 0, Notifier] racing_example =
     Some \<lparr>shared = example_discoverer
                      \<lparr>subscriber :=
                         Slice [\<lparr>chan_cap = 1, chan_buf = [scenario_snapshot],
                                 chan_closed = False\<rparr>,
                                \<lparr>chan_cap = 1, chan_buf = [], chan_closed = False\<rparr>],
                       components := scenario_snapshot\<rparr>,
           mutex = Some 0, callers = [SubUnlock], notifier = NotifyReturned\<rparr>"
  by (simp add: racing_example_def example_discoverer_def scenario_snapshot_def sub_step_def
      notify_step_def make_chan_def try_send_def len_def)

end
